theory Spec2Isabelle
  imports Main "HOL-Library.Word" "HOL-Library.Sublist"
begin

section \<open>Leaf arrays and the shape serializer\<close>

text \<open>
  A leaf array as \<open>convert_checkpoint.py\<close> reads it: \<open>str(array.dtype)\<close>, the tuple
  \<open>array.shape\<close> of non-negative Python ints, and the buffer \<open>array.tobytes()\<close>.
\<close>

record ndarray =
  dtype :: string
  shape :: "nat list"
  tobytes :: "8 word list"

text \<open>Python's \<open>str(i)\<close> on a non-negative int: decimal digits, most significant first.\<close>

definition digit_char :: "nat \<Rightarrow> char" where
  "digit_char d = ''0123456789'' ! d"

fun str_nat :: "nat \<Rightarrow> string" where
  "str_nat n = (if n < 10 then [digit_char n] else str_nat (n div 10) @ [digit_char (n mod 10)])"

declare str_nat.simps [simp del]

text \<open>Python's \<open>sep.join(xs)\<close>.\<close>

fun str_join :: "string \<Rightarrow> string list \<Rightarrow> string" where
  "str_join sep [] = []"
| "str_join sep [x] = x"
| "str_join sep (x # y # ys) = x @ sep @ str_join sep (y # ys)"

text \<open>
  \<^verbatim>\<open>return ",".join([f"{str(array.dtype)}"]+[str(i) for i in array.shape])\<close>
\<close>

definition serialize_shape :: "ndarray \<Rightarrow> string" where
  "serialize_shape array = str_join '','' ([dtype array] @ map str_nat (shape array))"

text \<open>
  The reader's side of the \<open>.shape\<close> format, used to state the round trip:
  Python's \<open>s.split(c)\<close> for a one-character separator, and the value of a string of
  decimal digits (\<open>None\<close> where \<open>int(s)\<close> would not read a plain digit string).
\<close>

fun split_on :: "char \<Rightarrow> string \<Rightarrow> string list" where
  "split_on c [] = [[]]"
| "split_on c (x # xs) =
     (if x = c then [] # split_on c xs
      else (case split_on c xs of [] \<Rightarrow> [[x]] | w # ws \<Rightarrow> (x # w) # ws))"

definition is_digit :: "char \<Rightarrow> bool" where
  "is_digit c = (c \<in> set ''0123456789'')"

definition digit_val :: "char \<Rightarrow> nat" where
  "digit_val c = of_char c - 48"

definition int_of_str :: "string \<Rightarrow> nat option" where
  "int_of_str s =
     (if s \<noteq> [] \<and> list_all is_digit s
      then Some (foldl (\<lambda>acc c. 10 * acc + digit_val c) 0 s) else None)"

section \<open>The parameter tree and its flattening\<close>

text \<open>
  The Loader's PyTree: nested dicts with string keys whose leaves are arrays. A dict holds
  its entries in the order in which JAX's traversal yields them. A path handed to the
  callback is a list of \<open>jax.tree_util.DictKey\<close> entries.
\<close>

datatype key_entry = DictKey (key: string)

datatype pytree = Leaf ndarray | Dict "(string \<times> pytree) list"

text \<open>\<^verbatim>\<open>return [e.key for e in path]\<close>\<close>

definition path_to_str_tuple :: "key_entry list \<Rightarrow> string list" where
  "path_to_str_tuple path = map key path"

text \<open>
  \<open>jax.tree_util.tree_map_with_path(f, tree)\<close> calls \<open>f(path, leaf)\<close> once per leaf, depth
  first, entries in order. The callback of \<open>flatten_params\<close> works by its effect on the
  enclosing list, so the traversal threads a state \<open>s\<close> through the calls; the mapped tree
  it returns is dropped by the caller and is not modelled.
\<close>

fun tree_map_with_path ::
    "(key_entry list \<Rightarrow> ndarray \<Rightarrow> 's \<Rightarrow> 's) \<Rightarrow> key_entry list \<Rightarrow> pytree \<Rightarrow> 's \<Rightarrow> 's"
  and tree_map_items ::
    "(key_entry list \<Rightarrow> ndarray \<Rightarrow> 's \<Rightarrow> 's) \<Rightarrow> key_entry list \<Rightarrow> (string \<times> pytree) list \<Rightarrow> 's \<Rightarrow> 's"
where
  "tree_map_with_path f path (Leaf a) s = f path a s"
| "tree_map_with_path f path (Dict kvs) s = tree_map_items f path kvs s"
| "tree_map_items f path [] s = s"
| "tree_map_items f path ((k, t) # kvs) s =
     tree_map_items f path kvs (tree_map_with_path f (path @ [DictKey k]) t s)"

text \<open>
  \<^verbatim>\<open>
  list = []
  def append_to_list(path, value):
      list.append((path_to_str_tuple(path), value))
  jax.tree_util.tree_map_with_path(append_to_list,  params)
  return list
  \<close>
\<close>

definition append_to_list ::
    "key_entry list \<Rightarrow> ndarray \<Rightarrow> (string list \<times> ndarray) list \<Rightarrow> (string list \<times> ndarray) list" where
  "append_to_list path v list = list @ [(path_to_str_tuple path, v)]"

definition flatten_params :: "pytree \<Rightarrow> (string list \<times> ndarray) list" where
  "flatten_params params = tree_map_with_path append_to_list [] params []"

text \<open>
  The specification's reading of the flattener, to compare \<open>flatten_params\<close> with: the
  leaves listed depth first in entry order, each with the keys from the root down to it;
  the number of leaves; and the relation "the tree has leaf \<open>a\<close> at key sequence \<open>p\<close>".
\<close>

fun leaf_paths :: "pytree \<Rightarrow> (string list \<times> ndarray) list" where
  "leaf_paths (Leaf a) = [([], a)]"
| "leaf_paths (Dict kvs) =
     concat (map (\<lambda>(k, t). map (\<lambda>(p, a). (k # p, a)) (leaf_paths t)) kvs)"

fun num_leaves :: "pytree \<Rightarrow> nat" where
  "num_leaves (Leaf a) = 1"
| "num_leaves (Dict kvs) = sum_list (map (\<lambda>(k, t). num_leaves t) kvs)"

inductive leaf_at :: "pytree \<Rightarrow> string list \<Rightarrow> ndarray \<Rightarrow> bool" where
  here: "leaf_at (Leaf a) [] a"
| below: "(k, t) \<in> set kvs \<Longrightarrow> leaf_at t p a \<Longrightarrow> leaf_at (Dict kvs) (k # p) a"

code_pred leaf_at .

section \<open>Path functions of \<open>os.path\<close> (POSIX)\<close>

text \<open>
  The tool builds its file names with \<open>os.path.join\<close>, \<open>os.path.dirname\<close>,
  \<open>os.path.expanduser\<close> and \<open>os.path.abspath\<close>. They are modelled as \<open>posixpath\<close>
  computes them, on strings, with separator \<open>/\<close>.
\<close>

definition startswith_sep :: "string \<Rightarrow> bool" where
  "startswith_sep b = (b \<noteq> [] \<and> hd b = CHR ''/'')"

definition endswith_sep :: "string \<Rightarrow> bool" where
  "endswith_sep a = (a \<noteq> [] \<and> last a = CHR ''/'')"

text \<open>
  \<open>os.path.join(a, *p)\<close>: a component that starts with \<open>/\<close> replaces what was joined so
  far; otherwise it is appended, after a \<open>/\<close> unless the path is empty or ends with one.
\<close>

definition join_step :: "string \<Rightarrow> string \<Rightarrow> string" where
  "join_step path b =
     (if startswith_sep b then b
      else if path = [] \<or> endswith_sep path then path @ b
      else path @ ''/'' @ b)"

fun os_path_join :: "string \<Rightarrow> string list \<Rightarrow> string" where
  "os_path_join a [] = a"
| "os_path_join a (b # p) = os_path_join (join_step a b) p"

definition all_sep :: "string \<Rightarrow> bool" where
  "all_sep s = list_all (\<lambda>c. c = CHR ''/'') s"

definition rstrip_sep :: "string \<Rightarrow> string" where
  "rstrip_sep s = rev (dropWhile (\<lambda>c. c = CHR ''/'') (rev s))"

text \<open>
  \<open>os.path.split(p)\<close>: the tail is what follows the last \<open>/\<close>, the head what precedes it,
  without its trailing slashes unless it consists of slashes only.
\<close>

definition os_path_split :: "string \<Rightarrow> string \<times> string" where
  "os_path_split p =
     (let tail = rev (takeWhile (\<lambda>c. c \<noteq> CHR ''/'') (rev p));
          head = take (length p - length tail) p
      in (if head \<noteq> [] \<and> \<not> all_sep head then rstrip_sep head else head, tail))"

definition os_path_dirname :: "string \<Rightarrow> string" where
  "os_path_dirname p = fst (os_path_split p)"

text \<open>
  What \<open>expanduser\<close> and \<open>abspath\<close> read from the process: the environment variable
  \<open>HOME\<close>, the password database (the home directory of the current user and of a user
  by name) and the current working directory.
\<close>

record process_env =
  env_HOME :: "string option"
  pw_uid_dir :: "string option"
  pw_nam_dir :: "string \<Rightarrow> string option"
  getcwd :: string

definition os_path_expanduser :: "process_env \<Rightarrow> string \<Rightarrow> string" where
  "os_path_expanduser env path =
     (if path = [] \<or> hd path \<noteq> CHR ''~'' then path
      else
        let name = takeWhile (\<lambda>c. c \<noteq> CHR ''/'') (tl path);
            rest = dropWhile (\<lambda>c. c \<noteq> CHR ''/'') (tl path);
            userhome = (if name = []
                        then (case env_HOME env of Some h \<Rightarrow> Some h | None \<Rightarrow> pw_uid_dir env)
                        else pw_nam_dir env name)
        in (case userhome of
              None \<Rightarrow> path
            | Some h \<Rightarrow> (if rstrip_sep h @ rest = [] then ''/'' else rstrip_sep h @ rest)))"

text \<open>
  \<open>os.path.normpath\<close>: empty and \<open>.\<close> components are dropped, \<open>..\<close> removes the component
  before it (and is dropped at the root, kept at the front of a relative path); exactly
  two leading slashes are kept as two.
\<close>

fun norm_comps :: "bool \<Rightarrow> string list \<Rightarrow> string list \<Rightarrow> string list" where
  "norm_comps initial_slashes new_comps [] = new_comps"
| "norm_comps initial_slashes new_comps (cmp # comps) =
     (if cmp = [] \<or> cmp = ''.'' then norm_comps initial_slashes new_comps comps
      else if cmp \<noteq> ''..'' \<or> (\<not> initial_slashes \<and> new_comps = [])
              \<or> (new_comps \<noteq> [] \<and> last new_comps = ''..'')
      then norm_comps initial_slashes (new_comps @ [cmp]) comps
      else if new_comps \<noteq> [] then norm_comps initial_slashes (butlast new_comps) comps
      else norm_comps initial_slashes new_comps comps)"

definition os_path_normpath :: "string \<Rightarrow> string" where
  "os_path_normpath path =
     (if path = [] then ''.''
      else
        let initial_slashes =
              (if startswith_sep path
               then (if take 2 path = ''//'' \<and> take 3 path \<noteq> ''///'' then 2 else 1)
               else (0::nat));
            comps = norm_comps (initial_slashes \<noteq> 0) [] (split_on CHR ''/'' path);
            p = replicate initial_slashes CHR ''/'' @ str_join ''/'' comps
        in if p = [] then ''.'' else p)"

definition os_path_abspath :: "process_env \<Rightarrow> string \<Rightarrow> string" where
  "os_path_abspath env path =
     os_path_normpath (if startswith_sep path then path else os_path_join (getcwd env) [path])"

section \<open>The file system the Exporter writes to\<close>

text \<open>
  A directory or a regular file is named by the components of its absolute path, and a
  path string names the entry its components lead to: a relative path starts at the
  current directory, empty and \<open>.\<close> components stay where they are, \<open>..\<close> goes to the
  parent (the root is its own parent). Two strings with the same components name the
  same entry. The root is always a directory. The trace records, in order, every change
  a run makes, with the path strings as the calls were given them. What is not
  modelled: symbolic links, permissions, resource limits and other processes, so a call
  fails only where a path is missing or of the wrong kind.
\<close>

datatype error =
    FileNotFoundError | FileExistsError | NotADirectoryError | IsADirectoryError
  | LoaderError

datatype event =
    Mkdir string | Open string | Write string "8 word list" | Close string

record filesystem =
  dirs :: "string list set"
  files :: "string list \<rightharpoonup> 8 word list"
  trace :: "event list"

type_synonym 'a io = "filesystem \<Rightarrow> (error + 'a) \<times> filesystem"

definition absolute :: "process_env \<Rightarrow> string \<Rightarrow> string" where
  "absolute env p = (if startswith_sep p then p else getcwd env @ ''/'' @ p)"

definition canon :: "process_env \<Rightarrow> string \<Rightarrow> string list" where
  "canon env p = norm_comps True [] (split_on CHR ''/'' (absolute env p))"

definition isdir :: "process_env \<Rightarrow> filesystem \<Rightarrow> string \<Rightarrow> bool" where
  "isdir env fs p = (canon env p = [] \<or> canon env p \<in> dirs fs)"

definition isfile :: "process_env \<Rightarrow> filesystem \<Rightarrow> string \<Rightarrow> bool" where
  "isfile env fs p = (files fs (canon env p) \<noteq> None)"

text \<open>
  The directories on the way to \<open>name\<close>, outermost first: the prefixes of \<open>name\<close> that end
  where a component ends, the root apart. \<open>os.makedirs\<close> visits them in this order, and a
  path below \<open>name\<close> can be opened only if each of them is a directory.
\<close>

definition dir_chain :: "string \<Rightarrow> string list" where
  "dir_chain name =
     filter (\<lambda>q. q \<noteq> [] \<and> \<not> endswith_sep q
                \<and> (q = name \<or> name ! length q = CHR ''/'')) (prefixes name)"

text \<open>
  \<open>os.makedirs(name, exist_ok=True)\<close>: every directory of the chain that is missing is
  created; one that exists as a directory is left as it is; one that exists as a file
  makes the call fail, the directories created before it staying.
\<close>

fun mkdirs :: "process_env \<Rightarrow> string list \<Rightarrow> unit io" where
  "mkdirs env [] fs = (Inr (), fs)"
| "mkdirs env (d # ds) fs =
     (if isdir env fs d then mkdirs env ds fs
      else if isfile env fs d
      then (Inl (if ds = [] then FileExistsError else NotADirectoryError), fs)
      else mkdirs env ds
             (fs\<lparr>dirs := insert (canon env d) (dirs fs), trace := trace fs @ [Mkdir d]\<rparr>))"

definition os_makedirs :: "process_env \<Rightarrow> string \<Rightarrow> unit io" where
  "os_makedirs env name fs =
     (if name = [] then (Inl FileNotFoundError, fs) else mkdirs env (dir_chain name) fs)"

text \<open>
  \<open>open(p, 'wb')\<close> and \<open>open(p, 'w')\<close>: the file is created or truncated; the handle is
  the path. It fails when \<open>p\<close> is empty, names a directory or ends with \<open>/\<close>, or when a
  directory on the way to it is missing or is a file. \<open>f.write(data)\<close> appends to what
  the file holds, and leaving the \<open>with\<close> block closes it.
\<close>

definition open_w :: "process_env \<Rightarrow> string \<Rightarrow> string io" where
  "open_w env p fs =
     (if p = [] then (Inl FileNotFoundError, fs)
      else if isdir env fs p \<or> endswith_sep p then (Inl IsADirectoryError, fs)
      else if \<not> list_all (isdir env fs) (dir_chain (os_path_dirname p))
      then (Inl (if list_ex (isfile env fs) (dir_chain (os_path_dirname p))
                 then NotADirectoryError else FileNotFoundError), fs)
      else (Inr p, fs\<lparr>files := (files fs)(canon env p \<mapsto> []),
                      trace := trace fs @ [Open p]\<rparr>))"

definition f_write ::
    "process_env \<Rightarrow> string \<Rightarrow> 8 word list \<Rightarrow> filesystem \<Rightarrow> filesystem" where
  "f_write env f data fs =
     fs\<lparr>files := (files fs)(canon env f \<mapsto>
            (case files fs (canon env f) of None \<Rightarrow> data | Some old \<Rightarrow> old @ data)),
        trace := trace fs @ [Write f data]\<rparr>"

definition f_close :: "string \<Rightarrow> filesystem \<Rightarrow> filesystem" where
  "f_close f fs = fs\<lparr>trace := trace fs @ [Close f]\<rparr>"

text \<open>The bytes a text-mode \<open>write\<close> stores for a string (one byte per character).\<close>

definition encode :: "string \<Rightarrow> 8 word list" where
  "encode s = map (\<lambda>c. of_char c) s"

section \<open>The Exporter\<close>

text \<open>
  The body of the loop of \<open>write_params\<close>, for one \<open>(path, array)\<close> pair:
  \<^verbatim>\<open>
  base_file_path = os.path.join(base_dir, *path)
  os.makedirs(os.path.dirname(base_file_path), exist_ok=True)
  with open(base_file_path+".raw", 'wb') as f:
      f.write(array.tobytes())
  with open(base_file_path+".shape", 'w') as f:
      f.write(serialize_shape(array))
  \<close>
  An exception leaves the loop; what was written before it stays.
\<close>

definition write_leaf :: "process_env \<Rightarrow> string \<Rightarrow> string list \<times> ndarray \<Rightarrow> unit io" where
  "write_leaf env base_dir pa fs =
     (let base_file_path = os_path_join base_dir (fst pa); array = snd pa in
      case os_makedirs env (os_path_dirname base_file_path) fs of
        (Inl e, fs1) \<Rightarrow> (Inl e, fs1)
      | (Inr _, fs1) \<Rightarrow>
          (case open_w env (base_file_path @ ''.raw'') fs1 of
             (Inl e, fs2) \<Rightarrow> (Inl e, fs2)
           | (Inr f, fs2) \<Rightarrow>
               (case open_w env (base_file_path @ ''.shape'')
                       (f_close f (f_write env f (tobytes array) fs2)) of
                  (Inl e, fs3) \<Rightarrow> (Inl e, fs3)
                | (Inr g, fs3) \<Rightarrow>
                    (Inr (), f_close g (f_write env g (encode (serialize_shape array)) fs3)))))"

fun write_leaves ::
    "process_env \<Rightarrow> string \<Rightarrow> (string list \<times> ndarray) list \<Rightarrow> unit io" where
  "write_leaves env base_dir [] fs = (Inr (), fs)"
| "write_leaves env base_dir (pa # rest) fs =
     (case write_leaf env base_dir pa fs of
        (Inl e, fs') \<Rightarrow> (Inl e, fs')
      | (Inr _, fs') \<Rightarrow> write_leaves env base_dir rest fs')"

definition write_params :: "process_env \<Rightarrow> pytree \<Rightarrow> string \<Rightarrow> unit io" where
  "write_params env params base_dir fs =
     write_leaves env (os_path_expanduser env base_dir) (flatten_params params) fs"

section \<open>The entry point\<close>

text \<open>
  The parsed arguments: \<open>source_dir\<close> is required, \<open>target_dir\<close> is \<open>None\<close> when the option
  is not given. The Loader \<open>params_lib.load_and_format_params\<close> is outside the
  repository: it is a parameter, a function from the path to a tree or an error, that
  does not write to the file system.
\<close>

record args =
  source_dir :: string
  target_dir :: "string option"

definition read_parameter ::
    "process_env \<Rightarrow> (string \<Rightarrow> error + pytree) \<Rightarrow> string \<Rightarrow> error + pytree" where
  "read_parameter env load_and_format_params path =
     load_and_format_params (os_path_expanduser env path)"

text \<open>
  \<^verbatim>\<open>
  source_dir = os.path.abspath(os.path.expanduser(args.source_dir))
  target_dir = os.path.abspath(os.path.expanduser(args.target_dir)) if args.target_dir
               else os.path.join(source_dir, "raw")
  \<close>
  \<open>None\<close> and the empty string are both false in the condition.
\<close>

definition resolve_dirs :: "process_env \<Rightarrow> args \<Rightarrow> string \<times> string" where
  "resolve_dirs env a =
     (let src = os_path_abspath env (os_path_expanduser env (source_dir a));
          tgt = (case target_dir a of
                   None \<Rightarrow> os_path_join src [''raw'']
                 | Some t \<Rightarrow> (if t \<noteq> [] then os_path_abspath env (os_path_expanduser env t)
                             else os_path_join src [''raw'']))
      in (src, tgt))"

text \<open>
  \<open>main\<close> prints the two directories, loads, then writes. Its result is the outcome, the
  file system after it, and the lines printed. The switch of JAX to the CPU platform
  has no effect on files or output and is left out.
\<close>

definition main ::
    "process_env \<Rightarrow> (string \<Rightarrow> error + pytree) \<Rightarrow> args \<Rightarrow> filesystem
       \<Rightarrow> ((error + unit) \<times> filesystem) \<times> string list" where
  "main env load_and_format_params a fs =
     (let (src, tgt) = resolve_dirs env a;
          out = [''Conversion from Jax/Orbax Gemma checkpoint to raw arrays/shapes:'',
                 CHR 0x09 # ''Source directory: '' @ src,
                 CHR 0x09 # ''Target directory: '' @ tgt]
      in case read_parameter env load_and_format_params src of
           Inl e \<Rightarrow> ((Inl e, fs), out)
         | Inr params \<Rightarrow> (write_params env params tgt fs, out))"

section \<open>Predicates used in the statements\<close>

text \<open>
  A key that \<open>os.path.join\<close> takes as exactly one path segment: not empty and without
  a separator. The target root as the joined keys follow it.
\<close>

definition key_ok :: "string \<Rightarrow> bool" where
  "key_ok k = (k \<noteq> [] \<and> CHR ''/'' \<notin> set k)"

definition root_prefix :: "string \<Rightarrow> string" where
  "root_prefix base_dir = (if base_dir = [] \<or> endswith_sep base_dir then base_dir else base_dir @ ''/'')"

text \<open>
  A tree as Python dicts give it: no dict holds a key twice. The keys that occur in a
  tree. A key that names one directory entry below its parent: a segment other than
  \<open>.\<close> and \<open>..\<close>.
\<close>

fun wf_tree :: "pytree \<Rightarrow> bool" where
  "wf_tree (Leaf a) = True"
| "wf_tree (Dict kvs) = (distinct (map fst kvs) \<and> list_all (\<lambda>(k, t). wf_tree t) kvs)"

fun tree_keys :: "pytree \<Rightarrow> string list" where
  "tree_keys (Leaf a) = []"
| "tree_keys (Dict kvs) = concat (map (\<lambda>(k, t). k # tree_keys t) kvs)"

definition plain_name :: "string \<Rightarrow> bool" where
  "plain_name k = (key_ok k \<and> k \<noteq> ''.'' \<and> k \<noteq> ''..'')"

text \<open>
  For the place of a stem relative to the target root (C9). The components of the keys
  of a path; these components read in order from the root, empty and \<open>.\<close> components
  skipped, \<open>..\<close> removing the component before it (\<open>None\<close> when there is none to remove);
  keys none of which starts with \<open>/\<close> and whose components, read so, leave at least one;
  the components of a path as \<open>os.path.normpath\<close> keeps them; and a stem that lies under
  the root: its normalised components are those of the root followed by at least one
  name other than \<open>.\<close> and \<open>..\<close>.
\<close>

definition key_comps :: "string list \<Rightarrow> string list" where
  "key_comps p = concat (map (split_on CHR ''/'') p)"

fun rel_norm :: "string list \<Rightarrow> string list \<Rightarrow> string list option" where
  "rel_norm st [] = Some st"
| "rel_norm st (c # cs) =
     (if c = [] \<or> c = ''.'' then rel_norm st cs
      else if c = ''..'' then (if st = [] then None else rel_norm (butlast st) cs)
      else rel_norm (st @ [c]) cs)"

definition keys_stay_under :: "string list \<Rightarrow> bool" where
  "keys_stay_under p =
     (list_all (\<lambda>k. \<not> startswith_sep k) p
      \<and> (case rel_norm [] (key_comps p) of None \<Rightarrow> False | Some cs \<Rightarrow> cs \<noteq> []))"

definition norm_path_comps :: "string \<Rightarrow> string list" where
  "norm_path_comps p = norm_comps (startswith_sep p) [] (split_on CHR ''/'' p)"

definition under_root :: "string \<Rightarrow> string \<Rightarrow> bool" where
  "under_root base_dir stem =
     (startswith_sep stem = startswith_sep base_dir
      \<and> prefix (norm_path_comps base_dir) (norm_path_comps stem)
      \<and> length (norm_path_comps base_dir) < length (norm_path_comps stem)
      \<and> list_all plain_name (drop (length (norm_path_comps base_dir)) (norm_path_comps stem)))"


text \<open>The events of one pass of the loop.\<close>

definition leaf_events :: "string \<Rightarrow> ndarray \<Rightarrow> event list" where
  "leaf_events stem array =
     [Open (stem @ ''.raw''), Write (stem @ ''.raw'') (tobytes array), Close (stem @ ''.raw''),
      Open (stem @ ''.shape''), Write (stem @ ''.shape'') (encode (serialize_shape array)),
      Close (stem @ ''.shape'')]"

text \<open>
  For the statements about the files of a run: when \<open>open\<close> for writing succeeds; the
  directory and the last component of a stem; the two files of a leaf, as the file
  system names them; the files after one pass of the loop; the files a run writes; a
  later state of the file system (nothing is removed, and no file becomes a directory);
  and what holds of a leaf once its pass has succeeded.
\<close>

definition can_open :: "process_env \<Rightarrow> filesystem \<Rightarrow> string \<Rightarrow> bool" where
  "can_open env fs p =
     (p \<noteq> [] \<and> \<not> isdir env fs p \<and> \<not> endswith_sep p
      \<and> list_all (isdir env fs) (dir_chain (os_path_dirname p)))"

definition stem_dir :: "process_env \<Rightarrow> string \<Rightarrow> string list" where
  "stem_dir env stem = norm_comps True [] (butlast (split_on CHR ''/'' (absolute env stem)))"

definition stem_name :: "process_env \<Rightarrow> string \<Rightarrow> string" where
  "stem_name env stem = last (split_on CHR ''/'' (absolute env stem))"

definition raw_file :: "process_env \<Rightarrow> string \<Rightarrow> string list \<times> ndarray \<Rightarrow> string list" where
  "raw_file env base_dir pa = canon env (os_path_join base_dir (fst pa) @ ''.raw'')"

definition shape_file :: "process_env \<Rightarrow> string \<Rightarrow> string list \<times> ndarray \<Rightarrow> string list" where
  "shape_file env base_dir pa = canon env (os_path_join base_dir (fst pa) @ ''.shape'')"

definition leaf_files ::
    "process_env \<Rightarrow> string \<Rightarrow> string list \<times> ndarray
       \<Rightarrow> (string list \<rightharpoonup> 8 word list) \<Rightarrow> (string list \<rightharpoonup> 8 word list)" where
  "leaf_files env base_dir pa m =
     m(raw_file env base_dir pa \<mapsto> tobytes (snd pa),
       shape_file env base_dir pa \<mapsto> encode (serialize_shape (snd pa)))"

definition written_names ::
    "process_env \<Rightarrow> string \<Rightarrow> (string list \<times> ndarray) list \<Rightarrow> string list list" where
  "written_names env base_dir leaves =
     concat (map (\<lambda>pa. [raw_file env base_dir pa, shape_file env base_dir pa]) leaves)"

definition extends :: "filesystem \<Rightarrow> filesystem \<Rightarrow> bool" where
  "extends fs fs' =
     (dirs fs \<subseteq> dirs fs' \<and> dom (files fs) \<subseteq> dom (files fs')
      \<and> (\<forall>k. k \<in> dom (files fs) \<and> k \<notin> dirs fs \<longrightarrow> k \<notin> dirs fs'))"

definition written ::
    "process_env \<Rightarrow> filesystem \<Rightarrow> string \<Rightarrow> string list \<times> ndarray \<Rightarrow> bool" where
  "written env fs base_dir pa =
     (let stem = os_path_join base_dir (fst pa) in
      os_path_dirname stem \<noteq> []
      \<and> list_all (isdir env fs) (dir_chain (os_path_dirname stem))
      \<and> can_open env fs (stem @ ''.raw'') \<and> can_open env fs (stem @ ''.shape'')
      \<and> isfile env fs (stem @ ''.raw'') \<and> isfile env fs (stem @ ''.shape''))"

text \<open>Example values: two arrays, a process environment and an empty file system.\<close>

abbreviation ex_w :: ndarray where
  "ex_w \<equiv> \<lparr>dtype = ''float32'', shape = [2, 2],
            tobytes = [0, 0, 128, 63, 0, 0, 0, 64, 0, 0, 64, 64, 0, 0, 128, 64]\<rparr>"

abbreviation ex_b :: ndarray where
  "ex_b \<equiv> \<lparr>dtype = ''int32'', shape = [], tobytes = [7, 0, 0, 0]\<rparr>"

abbreviation ex_env :: process_env where
  "ex_env \<equiv> \<lparr>env_HOME = Some ''/home/u'', pw_uid_dir = None, pw_nam_dir = (\<lambda>n. None),
              getcwd = ''/w''\<rparr>"

abbreviation ex_fs :: filesystem where
  "ex_fs \<equiv> \<lparr>dirs = {}, files = Map.empty, trace = []\<rparr>"

section \<open>Facts about decimal strings, split and join\<close>

lemma digit_char_is_digit: "d < 10 \<Longrightarrow> is_digit (digit_char d)"
proof -
  assume "d < 10"
  then have "d \<in> {0,1,2,3,4,5,6,7,8,9}" by auto
  then show ?thesis by (auto simp: digit_char_def is_digit_def)
qed

lemma digit_val_digit_char: "d < 10 \<Longrightarrow> digit_val (digit_char d) = d"
proof -
  assume "d < 10"
  then have "d \<in> {0,1,2,3,4,5,6,7,8,9}" by auto
  then show ?thesis by (auto simp: digit_char_def digit_val_def)
qed

lemma is_digit_not_comma: "is_digit c \<Longrightarrow> c \<noteq> CHR '',''"
  by (auto simp: is_digit_def)

lemma str_nat_digits: "list_all is_digit (str_nat n)"
proof (induction n rule: str_nat.induct)
  case (1 n)
  show ?case
  proof (cases "n < 10")
    case True
    then show ?thesis by (subst str_nat.simps) (simp add: digit_char_is_digit)
  next
    case False
    with 1 have "list_all is_digit (str_nat (n div 10))" by simp
    moreover have "is_digit (digit_char (n mod 10))" by (simp add: digit_char_is_digit)
    ultimately show ?thesis using False by (subst str_nat.simps) simp
  qed
qed

lemma str_nat_nonempty: "str_nat n \<noteq> []"
  by (subst str_nat.simps) simp

lemma str_nat_value: "foldl (\<lambda>acc c. 10 * acc + digit_val c) 0 (str_nat n) = n"
proof (induction n rule: str_nat.induct)
  case (1 n)
  show ?case
  proof (cases "n < 10")
    case True
    then show ?thesis by (subst str_nat.simps) (simp add: digit_val_digit_char)
  next
    case False
    with 1 have ih: "foldl (\<lambda>acc c. 10 * acc + digit_val c) 0 (str_nat (n div 10)) = n div 10"
      by simp
    have "digit_val (digit_char (n mod 10)) = n mod 10" by (simp add: digit_val_digit_char)
    with ih False show ?thesis by (subst str_nat.simps) simp
  qed
qed

lemma int_of_str_str_nat: "int_of_str (str_nat n) = Some n"
  by (simp add: int_of_str_def str_nat_digits str_nat_nonempty str_nat_value)

lemma str_nat_no_comma: "CHR '','' \<notin> set (str_nat n)"
  using str_nat_digits [of n] is_digit_not_comma by (auto simp: list_all_iff)

lemma split_on_nonempty: "split_on c s \<noteq> []"
  by (induction s) (auto split: list.splits)

lemma split_on_no_sep: "c \<notin> set w \<Longrightarrow> split_on c w = [w]"
  by (induction w) (auto split: list.splits)

lemma split_on_append: "c \<notin> set w \<Longrightarrow> split_on c (w @ c # r) = w # split_on c r"
  by (induction w) (auto split: list.splits)

lemma split_on_join:
  "\<forall>w \<in> set (x # xs). c \<notin> set w \<Longrightarrow> split_on c (str_join [c] (x # xs)) = x # xs"
proof (induction xs arbitrary: x)
  case Nil
  then show ?case by (simp add: split_on_no_sep)
next
  case (Cons y ys)
  then have "split_on c (str_join [c] (y # ys)) = y # ys" by simp
  moreover from Cons.prems have "c \<notin> set x" by simp
  ultimately show ?case by (simp add: split_on_append)
qed

lemma str_nat_no_leading_zero: "hd (str_nat (Suc n)) \<noteq> CHR ''0''"
proof (induction "Suc n" arbitrary: n rule: str_nat.induct)
  case 1
  show ?case
  proof (cases "Suc n < 10")
    case True
    then have "Suc n \<in> {1,2,3,4,5,6,7,8,9}" by auto
    then show ?thesis by (subst str_nat.simps) (auto simp: digit_char_def)
  next
    case False
    then obtain m where m: "Suc n div 10 = Suc m" by (cases "Suc n div 10") auto
    with 1 False have "hd (str_nat (Suc m)) \<noteq> CHR ''0''" by simp
    moreover have "str_nat (Suc m) \<noteq> []" by (rule str_nat_nonempty)
    ultimately show ?thesis using False m by (subst str_nat.simps) (simp)
  qed
qed

lemma serialize_shape_concat:
  "serialize_shape a = dtype a @ concat (map (\<lambda>n. CHR '','' # str_nat n) (shape a))"
proof -
  have "str_join '','' (x # xs) = x @ concat (map (\<lambda>w. CHR '','' # w) xs)" for x xs
    by (induction xs arbitrary: x) simp_all
  then show ?thesis by (simp add: serialize_shape_def comp_def)
qed

section \<open>Facts about the flattening\<close>

lemma walk_append:
  "tree_map_with_path append_to_list path t acc
     = acc @ map (\<lambda>(p, a). (map key path @ p, a)) (leaf_paths t)"
  "tree_map_items append_to_list path kvs acc
     = acc @ concat (map (\<lambda>(k, t). map (\<lambda>(p, a). (map key path @ k # p, a)) (leaf_paths t)) kvs)"
proof (induction append_to_list path t acc and append_to_list path kvs acc
       rule: tree_map_with_path_tree_map_items.induct)
  case (1 path a s)
  then show ?case by (simp add: append_to_list_def path_to_str_tuple_def)
next
  case (2 path kvs s)
  then show ?case by (simp add: comp_def case_prod_unfold map_concat)
next
  case (3 path s)
  then show ?case by simp
next
  case (4 path k t kvs s)
  then show ?case by (simp add: comp_def case_prod_unfold)
qed

lemma flatten_params_leaf_paths: "flatten_params t = leaf_paths t"
  by (simp add: flatten_params_def walk_append(1))

lemma length_leaf_paths: "length (leaf_paths t) = num_leaves t"
proof (induction t)
  case (Leaf a)
  then show ?case by simp
next
  case (Dict kvs)
  have "\<And>k t. (k, t) \<in> set kvs \<Longrightarrow> length (leaf_paths t) = num_leaves t"
    using Dict by (auto simp: snds.simps)
  then have "map (\<lambda>x. length (case x of (k, t) \<Rightarrow> map (\<lambda>(p, a). (k # p, a)) (leaf_paths t))) kvs
      = map (\<lambda>(k, t). num_leaves t) kvs"
    by (auto simp: case_prod_unfold)
  then have "sum_list (map (\<lambda>x. length (case x of (k, t) \<Rightarrow> map (\<lambda>(p, a). (k # p, a)) (leaf_paths t))) kvs)
      = sum_list (map (\<lambda>(k, t). num_leaves t) kvs)"
    by (rule arg_cong)
  moreover have "length (leaf_paths (Dict kvs))
      = sum_list (map (\<lambda>x. length (case x of (k, t) \<Rightarrow> map (\<lambda>(p, a). (k # p, a)) (leaf_paths t))) kvs)"
    by (simp add: length_concat comp_def)
  ultimately show ?case by simp
qed

lemma leaf_at_iff: "leaf_at t p a \<longleftrightarrow> (p, a) \<in> set (leaf_paths t)"
proof
  show "leaf_at t p a \<Longrightarrow> (p, a) \<in> set (leaf_paths t)"
    by (induction rule: leaf_at.induct) force+
next
  show "(p, a) \<in> set (leaf_paths t) \<Longrightarrow> leaf_at t p a"
  proof (induction t arbitrary: p)
    case (Leaf b)
    then show ?case by (auto intro: leaf_at.here)
  next
    case (Dict kvs)
    from Dict.prems obtain k t q where kt: "(k, t) \<in> set kvs" and q: "(q, a) \<in> set (leaf_paths t)" and p: "p = k # q"
      by auto
    from kt have "t \<in> Basic_BNFs.snds (k, t)" by (simp add: snds.simps)
    with Dict.IH kt q have "leaf_at t q a" by blast
    with kt p show ?case by (auto intro: leaf_at.below)
  qed
qed

section \<open>Facts about joined paths\<close>

lemma join_step_key_ok:
  "key_ok k \<Longrightarrow> join_step a k = root_prefix a @ k"
  by (cases k) (auto simp: key_ok_def join_step_def root_prefix_def startswith_sep_def)

lemma key_ok_not_endswith: "key_ok k \<Longrightarrow> \<not> endswith_sep (a @ k) \<and> a @ k \<noteq> []"
  by (cases k rule: rev_cases) (auto simp: key_ok_def endswith_sep_def)

lemma os_path_join_keys_aux:
  "list_all key_ok ks \<Longrightarrow> a \<noteq> [] \<Longrightarrow> \<not> endswith_sep a \<Longrightarrow>
     os_path_join a ks = a @ concat (map (\<lambda>k. CHR ''/'' # k) ks)"
proof (induction ks arbitrary: a)
  case Nil
  then show ?case by simp
next
  case (Cons k ks)
  then have k: "key_ok k" by simp
  have step: "join_step a k = a @ CHR ''/'' # k"
    using Cons.prems(2,3) k by (simp add: join_step_key_ok root_prefix_def)
  have "\<not> endswith_sep ((a @ ''/'') @ k) \<and> (a @ ''/'') @ k \<noteq> []"
    using k by (rule key_ok_not_endswith)
  then have "os_path_join (a @ CHR ''/'' # k) ks = (a @ CHR ''/'' # k) @ concat (map (\<lambda>k. CHR ''/'' # k) ks)"
    using Cons.IH [of "a @ CHR ''/'' # k"] Cons.prems(1) by simp
  with step show ?case by simp
qed

lemma str_join_sep_concat:
  "str_join [c] (x # xs) = x @ concat (map (\<lambda>w. c # w) xs)"
  by (induction xs arbitrary: x) simp_all

lemma os_path_join_keys:
  assumes "list_all key_ok (k # ks)"
  shows "os_path_join base_dir (k # ks) = root_prefix base_dir @ str_join ''/'' (k # ks)"
proof -
  from assms have k: "key_ok k" and ks: "list_all key_ok ks" by simp_all
  have ne: "\<not> endswith_sep (root_prefix base_dir @ k) \<and> root_prefix base_dir @ k \<noteq> []"
    using k by (rule key_ok_not_endswith)
  have "os_path_join base_dir (k # ks) = os_path_join (root_prefix base_dir @ k) ks"
    using k by (simp add: join_step_key_ok)
  also have "\<dots> = (root_prefix base_dir @ k) @ concat (map (\<lambda>k. CHR ''/'' # k) ks)"
    using ks ne by (intro os_path_join_keys_aux) simp_all
  finally show ?thesis by (simp add: str_join_sep_concat)
qed

lemma str_join_nonempty: "list_all key_ok (k # ks) \<Longrightarrow> str_join ''/'' (k # ks) \<noteq> []"
  by (simp add: str_join_sep_concat key_ok_def)

lemma length_root_prefix: "length base_dir \<le> length (root_prefix base_dir)"
  by (simp add: root_prefix_def)

lemma os_path_join_inj:
  assumes p: "list_all key_ok p" and q: "list_all key_ok q"
    and eq: "os_path_join base_dir p = os_path_join base_dir q"
  shows "p = q"
proof (cases p)
  case Nil
  show ?thesis
  proof (cases q)
    case Nil
    with \<open>p = []\<close> show ?thesis by simp
  next
    case (Cons k ks)
    from q Cons have "os_path_join base_dir q = root_prefix base_dir @ str_join ''/'' (k # ks)"
      by (simp only: os_path_join_keys)
    with eq \<open>p = []\<close> have "base_dir = root_prefix base_dir @ str_join ''/'' (k # ks)"
      by simp
    then have "length base_dir = length (root_prefix base_dir) + length (str_join ''/'' (k # ks))"
      by (metis length_append)
    moreover have "length (str_join ''/'' (k # ks)) > 0"
      using q Cons str_join_nonempty by blast
    ultimately show ?thesis using length_root_prefix [of base_dir] by simp
  qed
next
  case (Cons k ks)
  note pc = this
  show ?thesis
  proof (cases q)
    case Nil
    from p pc have "os_path_join base_dir p = root_prefix base_dir @ str_join ''/'' (k # ks)"
      by (simp only: os_path_join_keys)
    with eq Nil have "base_dir = root_prefix base_dir @ str_join ''/'' (k # ks)"
      by simp
    then have "length base_dir = length (root_prefix base_dir) + length (str_join ''/'' (k # ks))"
      by (metis length_append)
    moreover have "length (str_join ''/'' (k # ks)) > 0"
      using p pc str_join_nonempty by blast
    ultimately show ?thesis using length_root_prefix [of base_dir] by simp
  next
    case (Cons j js)
    from p pc have "os_path_join base_dir p = root_prefix base_dir @ str_join ''/'' (k # ks)"
      by (simp only: os_path_join_keys)
    moreover from q Cons have "os_path_join base_dir q = root_prefix base_dir @ str_join ''/'' (j # js)"
      by (simp only: os_path_join_keys)
    ultimately have "str_join ''/'' (k # ks) = str_join ''/'' (j # js)" using eq by simp
    then have "split_on CHR ''/'' (str_join ''/'' (k # ks)) = split_on CHR ''/'' (str_join ''/'' (j # js))"
      by simp
    moreover have "split_on CHR ''/'' (str_join ''/'' (k # ks)) = k # ks"
      using p pc by (intro split_on_join) (auto simp: key_ok_def list_all_iff)
    moreover have "split_on CHR ''/'' (str_join ''/'' (j # js)) = j # js"
      using q Cons by (intro split_on_join) (auto simp: key_ok_def list_all_iff)
    ultimately show ?thesis using pc Cons by simp
  qed
qed

lemma leaf_paths_keys: "(p, a) \<in> set (leaf_paths t) \<Longrightarrow> set p \<subseteq> set (tree_keys t)"
proof (induction t arbitrary: p)
  case (Leaf b)
  then show ?case by simp
next
  case (Dict kvs)
  from Dict.prems obtain k t q where kt: "(k, t) \<in> set kvs"
      and q: "(q, a) \<in> set (leaf_paths t)" and p: "p = k # q"
    by auto
  from kt have "t \<in> Basic_BNFs.snds (k, t)" by (simp add: snds.simps)
  with Dict.IH kt q have "set q \<subseteq> set (tree_keys t)" by blast
  with kt p show ?case by force
qed

lemma distinct_prefixed:
  assumes "distinct (map fst kvs)"
    and "\<And>k t. (k, t) \<in> set kvs \<Longrightarrow> distinct (map fst (leaf_paths t))"
  shows "distinct (map fst (concat (map (\<lambda>(k, t). map (\<lambda>(p, a). (k # p, a)) (leaf_paths t)) kvs)))"
  using assms
proof (induction kvs)
  case Nil
  then show ?case by simp
next
  case (Cons kt kvs)
  obtain k t where kt: "kt = (k, t)" by (cases kt)
  have d1: "distinct (map fst (map (\<lambda>(p, a). (k # p, a)) (leaf_paths t)))"
  proof -
    have "map fst (map (\<lambda>(p, a). (k # p, a)) (leaf_paths t)) = map ((#) k) (map fst (leaf_paths t))"
      by (simp add: case_prod_unfold comp_def)
    moreover have "distinct (map fst (leaf_paths t))" using Cons.prems(2) [of k t] kt by simp
    moreover have "distinct (map ((#) k) xs)" if "distinct xs" for xs :: "string list list"
      using that by (simp add: distinct_map)
    ultimately show ?thesis by (simp only:)
  qed
  have d2: "distinct (map fst (concat (map (\<lambda>(k, t). map (\<lambda>(p, a). (k # p, a)) (leaf_paths t)) kvs)))"
  proof (rule Cons.IH)
    show "distinct (map fst kvs)" using Cons.prems(1) by simp
    show "\<And>k t. (k, t) \<in> set kvs \<Longrightarrow> distinct (map fst (leaf_paths t))"
      using Cons.prems(2) by (meson list.set_intros(2))
  qed
  have disj: "set (map fst (map (\<lambda>(p, a). (k # p, a)) (leaf_paths t)))
      \<inter> set (map fst (concat (map (\<lambda>(k, t). map (\<lambda>(p, a). (k # p, a)) (leaf_paths t)) kvs))) = {}"
    using Cons.prems(1) kt by force
  from d1 d2 disj show ?case using kt by simp
qed

lemma wf_tree_distinct_paths: "wf_tree t \<Longrightarrow> distinct (map fst (leaf_paths t))"
proof (induction t)
  case (Leaf a)
  then show ?case by simp
next
  case (Dict kvs)
  have "\<And>k t. (k, t) \<in> set kvs \<Longrightarrow> distinct (map fst (leaf_paths t))"
  proof -
    fix k t assume kt: "(k, t) \<in> set kvs"
    then have "t \<in> Basic_BNFs.snds (k, t)" by (simp add: snds.simps)
    moreover from Dict.prems kt have "wf_tree t" by (auto simp: list_all_iff)
    ultimately show "distinct (map fst (leaf_paths t))" using Dict.IH kt by blast
  qed
  with Dict.prems show ?case by (simp add: distinct_prefixed)
qed

lemma distinct_stems:
  assumes "wf_tree t" and "list_all key_ok (tree_keys t)"
  shows "distinct (map (\<lambda>pa. os_path_join base_dir (fst pa)) (flatten_params t))"
proof -
  have "inj_on (os_path_join base_dir) (set (map fst (leaf_paths t)))"
  proof (rule inj_onI)
    fix p q
    assume p: "p \<in> set (map fst (leaf_paths t))" and q: "q \<in> set (map fst (leaf_paths t))"
      and eq: "os_path_join base_dir p = os_path_join base_dir q"
    from p assms(2) have "list_all key_ok p" using leaf_paths_keys by (fastforce simp: list_all_iff)
    moreover from q assms(2) have "list_all key_ok q" using leaf_paths_keys by (fastforce simp: list_all_iff)
    ultimately show "p = q" using eq by (rule os_path_join_inj)
  qed
  moreover have "distinct (map fst (leaf_paths t))" using assms(1) by (rule wf_tree_distinct_paths)
  ultimately have "distinct (map (os_path_join base_dir) (map fst (leaf_paths t)))"
    by (subst distinct_map) blast
  then show ?thesis by (simp add: flatten_params_leaf_paths comp_def)
qed

lemma dict_paths_nonempty: "(p, a) \<in> set (leaf_paths (Dict kvs)) \<Longrightarrow> p \<noteq> []"
  by auto

lemma normpath_nonempty: "os_path_normpath p \<noteq> []"
  by (simp add: os_path_normpath_def Let_def)

lemma norm_comps_append:
  "norm_comps ab st (xs @ ys) = norm_comps ab (norm_comps ab st xs) ys"
proof (induction xs arbitrary: st)
  case Nil
  then show ?case by simp
next
  case (Cons x xs)
  show ?case by (simp only: append_Cons norm_comps.simps Cons.IH split: if_splits) simp
qed

lemma split_on_sep_append:
  "split_on c (x @ c # y) = split_on c x @ split_on c y"
proof (induction x)
  case Nil
  then show ?case by simp
next
  case (Cons a x)
  then show ?case using split_on_nonempty [of c x] by (auto split: list.splits)
qed

lemma split_on_parts_no_sep: "w \<in> set (split_on c s) \<Longrightarrow> c \<notin> set w"
  by (induction s arbitrary: w) (auto split: list.splits if_splits)


lemma norm_comps_skip_empty:
  "norm_comps ab st (xs @ [] # ys) = norm_comps ab st (xs @ ys)"
  by (simp add: norm_comps_append)

lemma split_on_last_sep: "split_on c (x @ [c]) = split_on c x @ [[]]"
  using split_on_sep_append [of c x "[]"] by simp

lemma norm_comps_join_step:
  assumes "\<not> startswith_sep b"
  shows "norm_comps ab st (split_on CHR ''/'' (join_step a b))
       = norm_comps ab st (split_on CHR ''/'' a @ split_on CHR ''/'' b)"
proof (cases "a = []")
  case True
  then show ?thesis using assms by (simp add: join_step_def)
next
  case False
  show ?thesis
  proof (cases "endswith_sep a")
    case True
    then obtain a' where a: "a = a' @ ''/''"
      using False by (metis append_butlast_last_id endswith_sep_def)
    have "split_on CHR ''/'' (join_step a b) = split_on CHR ''/'' a' @ split_on CHR ''/'' b"
      using assms True a by (simp add: join_step_def split_on_sep_append)
    moreover have "split_on CHR ''/'' a = split_on CHR ''/'' a' @ [[]]"
      using a split_on_last_sep [of "CHR ''/''" a'] by simp
    ultimately show ?thesis by (simp add: norm_comps_append)
  next
    case nosep: False
    then show ?thesis using assms False by (simp add: join_step_def split_on_sep_append)
  qed
qed

lemma startswith_join_step:
  "\<not> startswith_sep b \<Longrightarrow> startswith_sep (join_step a b) = startswith_sep a"
  by (cases a) (auto simp: join_step_def startswith_sep_def)

lemma os_path_join_comps:
  "list_all (\<lambda>k. \<not> startswith_sep k) p \<Longrightarrow>
     norm_comps ab st (split_on CHR ''/'' (os_path_join a p))
       = norm_comps ab st (split_on CHR ''/'' a @ key_comps p)
     \<and> startswith_sep (os_path_join a p) = startswith_sep a"
proof (induction p arbitrary: a)
  case Nil
  then show ?case by (simp add: key_comps_def)
next
  case (Cons k p)
  then have k: "\<not> startswith_sep k" and p: "list_all (\<lambda>k. \<not> startswith_sep k) p" by simp_all
  have "norm_comps ab st (split_on CHR ''/'' (os_path_join (join_step a k) p))
      = norm_comps ab st (split_on CHR ''/'' (join_step a k) @ key_comps p)"
    using Cons.IH [OF p] by blast
  also have "\<dots> = norm_comps ab (norm_comps ab st (split_on CHR ''/'' (join_step a k))) (key_comps p)"
    by (rule norm_comps_append)
  also have "\<dots> = norm_comps ab (norm_comps ab st (split_on CHR ''/'' a @ split_on CHR ''/'' k)) (key_comps p)"
    using norm_comps_join_step [OF k, of ab st a] by simp
  also have "\<dots> = norm_comps ab st (split_on CHR ''/'' a @ key_comps (k # p))"
    by (simp add: norm_comps_append key_comps_def)
  finally have 1: "norm_comps ab st (split_on CHR ''/'' (os_path_join a (k # p)))
      = norm_comps ab st (split_on CHR ''/'' a @ key_comps (k # p))"
    by simp
  have "startswith_sep (os_path_join (join_step a k) p) = startswith_sep (join_step a k)"
    using Cons.IH [OF p] by blast
  then have 2: "startswith_sep (os_path_join a (k # p)) = startswith_sep a"
    using k by (simp add: startswith_join_step)
  from 1 2 show ?case by blast
qed

lemma rel_norm_norm_comps:
  assumes "rel_norm st kc = Some cs" and "list_all plain_name st"
    and "\<forall>c \<in> set kc. CHR ''/'' \<notin> set c"
  shows "norm_comps ab (b @ st) kc = b @ cs \<and> list_all plain_name cs"
  using assms
proof (induction kc arbitrary: st)
  case Nil
  then show ?case by simp
next
  case (Cons c kc)
  from Cons.prems(3) have nosep: "CHR ''/'' \<notin> set c" and rest: "\<forall>c \<in> set kc. CHR ''/'' \<notin> set c"
    by simp_all
  consider (skip) "c = [] \<or> c = ''.''" | (up) "c = ''..''" | (name) "c \<noteq> []" "c \<noteq> ''.''" "c \<noteq> ''..''"
    by blast
  then show ?case
  proof cases
    case skip
    with Cons.prems(1) have "rel_norm st kc = Some cs" by auto
    from Cons.IH [OF this Cons.prems(2) rest] skip show ?thesis by auto
  next
    case up
    with Cons.prems(1) have ne: "st \<noteq> []" and r: "rel_norm (butlast st) kc = Some cs"
      by (auto split: if_splits)
    have pl: "list_all plain_name (butlast st)"
      using Cons.prems(2) by (auto simp: list_all_iff dest: in_set_butlastD)
    have "last st \<noteq> ''..''" using Cons.prems(2) ne by (auto simp: list_all_iff plain_name_def)
    then have "norm_comps ab (b @ st) (c # kc) = norm_comps ab (b @ butlast st) kc"
      using up ne by (simp add: butlast_append)
    with Cons.IH [OF r pl rest] show ?thesis by simp
  next
    case name
    with Cons.prems(1) have r: "rel_norm (st @ [c]) kc = Some cs" by simp
    have "plain_name c" using name nosep by (simp add: plain_name_def key_ok_def)
    then have pl: "list_all plain_name (st @ [c])"
      using Cons.prems(2) by simp
    have "norm_comps ab (b @ st) (c # kc) = norm_comps ab (b @ st @ [c]) kc"
      using name by simp
    with Cons.IH [OF r pl rest] show ?thesis by simp
  qed
qed

lemma stem_under_root:
  assumes "keys_stay_under p"
  shows "under_root base_dir (os_path_join base_dir p)"
proof -
  from assms have na: "list_all (\<lambda>k. \<not> startswith_sep k) p" by (simp add: keys_stay_under_def)
  from assms obtain cs where r: "rel_norm [] (key_comps p) = Some cs" and ne: "cs \<noteq> []"
    by (auto simp: keys_stay_under_def split: option.splits)
  let ?ab = "startswith_sep base_dir"
  let ?b = "norm_path_comps base_dir"
  have sw: "startswith_sep (os_path_join base_dir p) = ?ab"
    using os_path_join_comps [OF na] by blast
  have nosep: "\<forall>c \<in> set (key_comps p). CHR ''/'' \<notin> set c"
    by (auto simp: key_comps_def dest: split_on_parts_no_sep)
  have "norm_path_comps (os_path_join base_dir p)
      = norm_comps ?ab [] (split_on CHR ''/'' base_dir @ key_comps p)"
    unfolding norm_path_comps_def sw using os_path_join_comps [OF na] by blast
  also have "\<dots> = norm_comps ?ab (?b @ []) (key_comps p)"
    by (simp add: norm_comps_append norm_path_comps_def)
  also have "\<dots> = ?b @ cs"
    using rel_norm_norm_comps [OF r _ nosep, of ?ab ?b] by simp
  finally have eq: "norm_path_comps (os_path_join base_dir p) = ?b @ cs" .
  have "list_all plain_name cs" using rel_norm_norm_comps [OF r _ nosep, of ?ab ?b] by simp
  with eq ne sw show ?thesis by (simp add: under_root_def)
qed

section \<open>Facts about the trace of a run\<close>

lemma mkdirs_files: "files (snd (mkdirs env ds fs)) = files fs"
  by (induction ds arbitrary: fs) simp_all

lemma mkdirs_dirs_mono: "dirs fs \<subseteq> dirs (snd (mkdirs env ds fs))"
proof (induction ds arbitrary: fs)
  case Nil
  then show ?case by simp
next
  case (Cons d ds)
  have "dirs fs \<subseteq> dirs (fs\<lparr>dirs := insert (canon env d) (dirs fs), trace := trace fs @ [Mkdir d]\<rparr>)" by auto
  also have "\<dots> \<subseteq> dirs (snd (mkdirs env ds (fs\<lparr>dirs := insert (canon env d) (dirs fs), trace := trace fs @ [Mkdir d]\<rparr>)))"
    by (rule Cons.IH)
  finally show ?case using Cons.IH [of fs] by simp
qed






lemma raw_ne_shape: "x @ ''.raw'' \<noteq> y @ ''.shape''"
proof
  assume "x @ ''.raw'' = y @ ''.shape''"
  then have "last (x @ ''.raw'') = last (y @ ''.shape'')" by simp
  then show False by simp
qed






section \<open>Facts about the files of a run\<close>

lemma open_w_can_open:
  "can_open env fs p \<Longrightarrow>
     open_w env p fs = (Inr p, fs\<lparr>files := (files fs)(canon env (p) \<mapsto> []), trace := trace fs @ [Open p]\<rparr>)"
  by (simp add: can_open_def open_w_def)

lemma open_w_cannot: "\<not> can_open env fs p \<Longrightarrow> \<exists>e. open_w env p fs = (Inl e, fs)"
  by (auto simp: can_open_def open_w_def)

lemma isdir_dirs_eq: "dirs fs = dirs fs' \<Longrightarrow> isdir env fs = isdir env fs'"
  by (rule ext) (simp add: isdir_def)

lemma can_open_dirs: "dirs fs = dirs fs' \<Longrightarrow> can_open env fs p = can_open env fs' p"
  using isdir_dirs_eq [of fs fs' env] by (simp add: can_open_def)

lemma extends_refl: "extends fs fs"
  by (simp add: extends_def)

lemma extends_trans: "extends a b \<Longrightarrow> extends b c \<Longrightarrow> extends a c"
  unfolding extends_def by blast

lemma isdir_mono: "dirs fs \<subseteq> dirs fs' \<Longrightarrow> isdir env fs d \<Longrightarrow> isdir env fs' d"
  by (auto simp: isdir_def)

lemma extends_files_only:
  "dirs fs' = dirs fs \<Longrightarrow> dom (files fs) \<subseteq> dom (files fs') \<Longrightarrow> extends fs fs'"
  by (auto simp: extends_def isfile_def isdir_def)

lemma mkdirs_extends: "extends fs (snd (mkdirs env ds fs))"
proof (induction ds arbitrary: fs)
  case Nil
  then show ?case by (simp add: extends_refl)
next
  case (Cons d ds)
  show ?case
  proof (cases "isdir env fs d \<or> isfile env fs d")
    case True
    then show ?thesis using Cons.IH [of fs] by (auto simp: extends_refl)
  next
    case False
    let ?fs1 = "fs\<lparr>dirs := insert (canon env d) (dirs fs), trace := trace fs @ [Mkdir d]\<rparr>"
    have "extends fs ?fs1" using False by (auto simp: extends_def isdir_def isfile_def)
    moreover have "extends ?fs1 (snd (mkdirs env ds ?fs1))" by (rule Cons.IH)
    ultimately have "extends fs (snd (mkdirs env ds ?fs1))" by (rule extends_trans)
    with False show ?thesis by simp
  qed
qed

lemma mkdirs_success_isdir:
  "mkdirs env ds fs = (Inr u, fs') \<Longrightarrow> \<forall>d \<in> set ds. isdir env fs' d"
proof (induction ds arbitrary: fs)
  case Nil
  then show ?case by simp
next
  case (Cons d ds)
  show ?case
  proof (cases "isdir env fs d")
    case True
    with Cons.prems have m: "mkdirs env ds fs = (Inr u, fs')" by simp
    then have "\<forall>x \<in> set ds. isdir env fs' x" by (rule Cons.IH)
    moreover have "dirs fs \<subseteq> dirs fs'" using mkdirs_dirs_mono [of fs env ds] m by simp
    ultimately show ?thesis using True isdir_mono by auto
  next
    case False
    let ?fs1 = "fs\<lparr>dirs := insert (canon env d) (dirs fs), trace := trace fs @ [Mkdir d]\<rparr>"
    from False Cons.prems have nf: "\<not> isfile env fs d" by (auto split: if_splits)
    with False Cons.prems have m: "mkdirs env ds ?fs1 = (Inr u, fs')" by simp
    then have "\<forall>x \<in> set ds. isdir env fs' x" by (rule Cons.IH)
    moreover have "dirs ?fs1 \<subseteq> dirs fs'" using mkdirs_dirs_mono [of ?fs1 env ds] m by simp
    then have "isdir env fs' d" by (auto simp: isdir_def)
    ultimately show ?thesis by simp
  qed
qed

lemma mkdirs_all_isdir:
  "\<forall>d \<in> set ds. isdir env fs d \<Longrightarrow> mkdirs env ds fs = (Inr (), fs)"
  by (induction ds) simp_all


lemma write_leaf_success:
  assumes "write_leaf env base_dir pa fs = (Inr (), fs')"
  shows "\<exists>fs1. os_makedirs env (os_path_dirname (os_path_join base_dir (fst pa))) fs = (Inr (), fs1)
      \<and> can_open env fs1 (os_path_join base_dir (fst pa) @ ''.raw'')
      \<and> can_open env fs1 (os_path_join base_dir (fst pa) @ ''.shape'')
      \<and> fs' = fs1\<lparr>files := leaf_files env base_dir pa (files fs1),
                   trace := trace fs1 @ leaf_events (os_path_join base_dir (fst pa)) (snd pa)\<rparr>"
proof -
  let ?stem = "os_path_join base_dir (fst pa)"
  obtain r1 fs1 where mk: "os_makedirs env (os_path_dirname ?stem) fs = (r1, fs1)"
    by (cases "os_makedirs env (os_path_dirname ?stem) fs")
  from assms mk have r1: "r1 = Inr ()"
    by (cases r1) (simp_all add: write_leaf_def Let_def)
  have c1: "can_open env fs1 (?stem @ ''.raw'')"
  proof (rule ccontr)
    assume "\<not> can_open env fs1 (?stem @ ''.raw'')"
    then obtain e where "open_w env (?stem @ ''.raw'') fs1 = (Inl e, fs1)" using open_w_cannot by blast
    with assms mk r1 show False by (simp add: write_leaf_def Let_def)
  qed
  let ?fs2 = "fs1\<lparr>files := (files fs1)(canon env (?stem @ ''.raw'') \<mapsto> []), trace := trace fs1 @ [Open (?stem @ ''.raw'')]\<rparr>"
  let ?fs3 = "f_close (?stem @ ''.raw'') (f_write env (?stem @ ''.raw'') (tobytes (snd pa)) ?fs2)"
  have o1: "open_w env (?stem @ ''.raw'') fs1 = (Inr (?stem @ ''.raw''), ?fs2)"
    using c1 by (rule open_w_can_open)
  have d3: "dirs ?fs3 = dirs fs1" by (simp add: f_close_def f_write_def)
  have c3: "can_open env ?fs3 (?stem @ ''.shape'')"
  proof (rule ccontr)
    assume "\<not> can_open env ?fs3 (?stem @ ''.shape'')"
    then obtain e where "open_w env (?stem @ ''.shape'') ?fs3 = (Inl e, ?fs3)" using open_w_cannot by blast
    with assms mk r1 o1 show False by (simp add: write_leaf_def Let_def)
  qed
  then have c2: "can_open env fs1 (?stem @ ''.shape'')" using can_open_dirs [OF d3] by simp
  let ?fs4 = "?fs3\<lparr>files := (files ?fs3)(canon env (?stem @ ''.shape'') \<mapsto> []), trace := trace ?fs3 @ [Open (?stem @ ''.shape'')]\<rparr>"
  let ?fs5 = "f_close (?stem @ ''.shape'') (f_write env (?stem @ ''.shape'') (encode (serialize_shape (snd pa))) ?fs4)"
  have o2: "open_w env (?stem @ ''.shape'') ?fs3 = (Inr (?stem @ ''.shape''), ?fs4)"
    using c3 by (rule open_w_can_open)
  from mk r1 o1 o2 have "write_leaf env base_dir pa fs = (Inr (), ?fs5)"
    by (simp add: write_leaf_def Let_def)
  with assms have "fs' = ?fs5" by simp
  also have "?fs5 = fs1\<lparr>files := leaf_files env base_dir pa (files fs1),
                   trace := trace fs1 @ leaf_events ?stem (snd pa)\<rparr>"
    by (simp add: f_close_def f_write_def leaf_files_def leaf_events_def raw_file_def shape_file_def)
  finally show ?thesis using mk r1 c1 c2 by blast
qed

lemma write_leaf_written:
  assumes "written env fs base_dir pa"
  shows "write_leaf env base_dir pa fs
     = (Inr (), fs\<lparr>files := leaf_files env base_dir pa (files fs),
                    trace := trace fs @ leaf_events (os_path_join base_dir (fst pa)) (snd pa)\<rparr>)"
proof -
  let ?stem = "os_path_join base_dir (fst pa)"
  from assms have ne: "os_path_dirname ?stem \<noteq> []"
    and ch: "\<forall>d \<in> set (dir_chain (os_path_dirname ?stem)). isdir env fs d"
    and c1: "can_open env fs (?stem @ ''.raw'')" and c2: "can_open env fs (?stem @ ''.shape'')"
    by (simp_all add: written_def Let_def list_all_iff)
  have mk: "os_makedirs env (os_path_dirname ?stem) fs = (Inr (), fs)"
    using ne ch by (simp add: os_makedirs_def mkdirs_all_isdir)
  let ?fs2 = "fs\<lparr>files := (files fs)(canon env (?stem @ ''.raw'') \<mapsto> []), trace := trace fs @ [Open (?stem @ ''.raw'')]\<rparr>"
  let ?fs3 = "f_close (?stem @ ''.raw'') (f_write env (?stem @ ''.raw'') (tobytes (snd pa)) ?fs2)"
  have o1: "open_w env (?stem @ ''.raw'') fs = (Inr (?stem @ ''.raw''), ?fs2)"
    using c1 by (rule open_w_can_open)
  have d3: "dirs ?fs3 = dirs fs" by (simp add: f_close_def f_write_def)
  have c3: "can_open env ?fs3 (?stem @ ''.shape'')" using c2 can_open_dirs [OF d3] by simp
  let ?fs4 = "?fs3\<lparr>files := (files ?fs3)(canon env (?stem @ ''.shape'') \<mapsto> []), trace := trace ?fs3 @ [Open (?stem @ ''.shape'')]\<rparr>"
  let ?fs5 = "f_close (?stem @ ''.shape'') (f_write env (?stem @ ''.shape'') (encode (serialize_shape (snd pa))) ?fs4)"
  have o2: "open_w env (?stem @ ''.shape'') ?fs3 = (Inr (?stem @ ''.shape''), ?fs4)"
    using c3 by (rule open_w_can_open)
  from mk o1 o2 have "write_leaf env base_dir pa fs = (Inr (), ?fs5)"
    by (simp add: write_leaf_def Let_def)
  also have "?fs5 = fs\<lparr>files := leaf_files env base_dir pa (files fs),
                   trace := trace fs @ leaf_events ?stem (snd pa)\<rparr>"
    by (simp add: f_close_def f_write_def leaf_files_def leaf_events_def raw_file_def shape_file_def)
  finally show ?thesis .
qed

lemma written_extends:
  assumes "written env fs base_dir pa" and "extends fs fs'"
  shows "written env fs' base_dir pa"
proof -
  from assms(2) have sub: "dirs fs \<subseteq> dirs fs'" by (simp add: extends_def)
  have ch: "list_all (isdir env fs') ds" if "list_all (isdir env fs) ds" for ds
    using that isdir_mono [OF sub] by (auto simp: list_all_iff)
  have nd: "\<not> isdir env fs' p" if "\<not> isdir env fs p" "isfile env fs p" for p
    using that assms(2) by (auto simp: isdir_def isfile_def extends_def)
  have co: "can_open env fs' p" if "can_open env fs p" "isfile env fs p" for p
    using that ch nd unfolding can_open_def by blast
  have fl: "isfile env fs' p" if "isfile env fs p" for p
    using that assms(2) by (auto simp: isfile_def extends_def)
  from assms(1) show ?thesis
    unfolding written_def Let_def using co ch fl by blast
qed

lemma write_leaf_establishes:
  assumes "write_leaf env base_dir pa fs = (Inr (), fs')"
  shows "written env fs' base_dir pa \<and> extends fs fs' \<and> files fs' = leaf_files env base_dir pa (files fs)"
proof -
  let ?stem = "os_path_join base_dir (fst pa)"
  from write_leaf_success [OF assms] obtain fs1 where
    mk: "os_makedirs env (os_path_dirname ?stem) fs = (Inr (), fs1)"
    and c1: "can_open env fs1 (?stem @ ''.raw'')" and c2: "can_open env fs1 (?stem @ ''.shape'')"
    and fs': "fs' = fs1\<lparr>files := leaf_files env base_dir pa (files fs1),
                   trace := trace fs1 @ leaf_events ?stem (snd pa)\<rparr>"
    by blast
  from mk have ne: "os_path_dirname ?stem \<noteq> []" by (auto simp: os_makedirs_def split: if_splits)
  with mk have m: "mkdirs env (dir_chain (os_path_dirname ?stem)) fs = (Inr (), fs1)"
    by (simp add: os_makedirs_def)
  have ch: "\<forall>d \<in> set (dir_chain (os_path_dirname ?stem)). isdir env fs1 d"
    using m by (rule mkdirs_success_isdir)
  have f1: "files fs1 = files fs" using mkdirs_files [of env "dir_chain (os_path_dirname ?stem)" fs] m by simp
  have e1: "extends fs fs1" using mkdirs_extends [of fs env "dir_chain (os_path_dirname ?stem)"] m by simp
  have d': "dirs fs' = dirs fs1" using fs' by simp
  have e2: "extends fs1 fs'"
    using d' fs' by (intro extends_files_only) (auto simp: leaf_files_def)
  have ch': "list_all (isdir env fs') (dir_chain (os_path_dirname ?stem))"
    using ch isdir_dirs_eq [OF d', of env] by (simp add: list_all_iff)
  have c1': "can_open env fs' (?stem @ ''.raw'')" using c1 can_open_dirs [OF d'] by simp
  have c2': "can_open env fs' (?stem @ ''.shape'')" using c2 can_open_dirs [OF d'] by simp
  have i1: "isfile env fs' (?stem @ ''.raw'')"
    using fs' by (simp add: isfile_def leaf_files_def raw_file_def shape_file_def)
  have i2: "isfile env fs' (?stem @ ''.shape'')"
    using fs' by (simp add: isfile_def leaf_files_def raw_file_def shape_file_def)
  have w: "written env fs' base_dir pa"
    unfolding written_def Let_def using ne ch' c1' c2' i1 i2 by blast
  have e: "extends fs fs'" using e1 e2 by (rule extends_trans)
  have f: "files fs' = leaf_files env base_dir pa (files fs)" using fs' f1 by simp
  from w e f show ?thesis by blast
qed


lemma write_leaves_success:
  "write_leaves env base_dir leaves fs = (Inr (), fs') \<Longrightarrow>
     extends fs fs' \<and> files fs' = fold (leaf_files env base_dir) leaves (files fs)
     \<and> (\<forall>pa \<in> set leaves. written env fs' base_dir pa)"
proof (induction leaves arbitrary: fs)
  case Nil
  then show ?case by (simp add: extends_refl)
next
  case (Cons pa rest)
  obtain r fs1 where w: "write_leaf env base_dir pa fs = (r, fs1)" by (cases "write_leaf env base_dir pa fs")
  with Cons.prems have r: "r = Inr ()" by (cases r) simp_all
  with w Cons.prems have rest: "write_leaves env base_dir rest fs1 = (Inr (), fs')" by simp
  from w r have e1: "written env fs1 base_dir pa" "extends fs fs1"
      "files fs1 = leaf_files env base_dir pa (files fs)"
    using write_leaf_establishes by blast+
  from Cons.IH [OF rest] have e2: "extends fs1 fs'"
      "files fs' = fold (leaf_files env base_dir) rest (files fs1)"
      "\<forall>pa \<in> set rest. written env fs' base_dir pa"
    by blast+
  have "written env fs' base_dir pa" using e1(1) e2(1) by (rule written_extends)
  moreover have "extends fs fs'" using e1(2) e2(1) by (rule extends_trans)
  ultimately show ?case using e1(3) e2(2,3) by simp
qed

lemma write_leaves_written:
  "\<forall>pa \<in> set leaves. written env fs base_dir pa \<Longrightarrow>
     write_leaves env base_dir leaves fs
       = (Inr (), fs\<lparr>files := fold (leaf_files env base_dir) leaves (files fs),
            trace := trace fs @ concat (map (\<lambda>pa. leaf_events (os_path_join base_dir (fst pa)) (snd pa)) leaves)\<rparr>)"
proof (induction leaves arbitrary: fs)
  case Nil
  then show ?case by simp
next
  case (Cons pa rest)
  let ?fs1 = "fs\<lparr>files := leaf_files env base_dir pa (files fs),
                    trace := trace fs @ leaf_events (os_path_join base_dir (fst pa)) (snd pa)\<rparr>"
  from Cons.prems have w: "write_leaf env base_dir pa fs = (Inr (), ?fs1)"
    by (simp add: write_leaf_written)
  have "extends fs ?fs1"
    by (intro extends_files_only) (auto simp: leaf_files_def)
  with Cons.prems have "\<forall>pa \<in> set rest. written env ?fs1 base_dir pa"
    using written_extends by auto
  from Cons.IH [OF this] w show ?case by simp
qed

lemma fold_leaf_files_add:
  "fold (leaf_files env base_dir) leaves m = m ++ fold (leaf_files env base_dir) leaves Map.empty"
proof (induction leaves arbitrary: m)
  case Nil
  then show ?case by simp
next
  case (Cons pa rest)
  have "fold (leaf_files env base_dir) (pa # rest) m
      = leaf_files env base_dir pa m ++ fold (leaf_files env base_dir) rest Map.empty"
    using Cons.IH [of "leaf_files env base_dir pa m"] by simp
  moreover have "fold (leaf_files env base_dir) (pa # rest) Map.empty
      = leaf_files env base_dir pa Map.empty ++ fold (leaf_files env base_dir) rest Map.empty"
    using Cons.IH [of "leaf_files env base_dir pa Map.empty"] by simp
  moreover have "leaf_files env base_dir pa m = m ++ leaf_files env base_dir pa Map.empty"
    by (simp add: leaf_files_def)
  ultimately show ?case by (simp del: fold_simps)
qed

lemma fold_leaf_files_idem:
  "fold (leaf_files env base_dir) leaves (fold (leaf_files env base_dir) leaves m)
     = fold (leaf_files env base_dir) leaves m"
proof -
  let ?w = "fold (leaf_files env base_dir) leaves Map.empty"
  have "fold (leaf_files env base_dir) leaves (fold (leaf_files env base_dir) leaves m) = (m ++ ?w) ++ ?w"
    using fold_leaf_files_add [of env base_dir leaves m]
      fold_leaf_files_add [of env base_dir leaves "m ++ ?w"] by simp
  also have "\<dots> = m ++ ?w" by (metis map_add_assoc map_add_subsumed1 map_le_refl)
  finally show ?thesis using fold_leaf_files_add [of env base_dir leaves m] by simp
qed

lemma rerun_unchanged:
  assumes "write_leaves env base_dir leaves fs = (Inr (), fs1)"
  shows "\<exists>fs2. write_leaves env base_dir leaves fs1 = (Inr (), fs2)
      \<and> dirs fs2 = dirs fs1 \<and> files fs2 = files fs1"
proof -
  from write_leaves_success [OF assms] have f1: "files fs1 = fold (leaf_files env base_dir) leaves (files fs)"
    and w: "\<forall>pa \<in> set leaves. written env fs1 base_dir pa"
    by blast+
  let ?fs2 = "fs1\<lparr>files := fold (leaf_files env base_dir) leaves (files fs1),
            trace := trace fs1 @ concat (map (\<lambda>pa. leaf_events (os_path_join base_dir (fst pa)) (snd pa)) leaves)\<rparr>"
  have "write_leaves env base_dir leaves fs1 = (Inr (), ?fs2)" using w by (rule write_leaves_written)
  moreover have "files ?fs2 = files fs1" using f1 by (simp add: fold_leaf_files_idem)
  moreover have "dirs ?fs2 = dirs fs1" by simp
  ultimately show ?thesis by blast
qed

lemma absolute_append_ext:
  "CHR ''/'' \<notin> set ext \<Longrightarrow> absolute env (p @ ext) = absolute env p @ ext"
  by (cases p; cases ext) (auto simp: absolute_def startswith_sep_def)

lemma split_on_append_ext:
  "c \<notin> set ext \<Longrightarrow>
     split_on c (q @ ext) = butlast (split_on c q) @ [last (split_on c q) @ ext]"
proof (induction q)
  case Nil
  then show ?case by (simp add: split_on_no_sep)
next
  case (Cons a q)
  then show ?case using split_on_nonempty [of c q] split_on_nonempty [of c "q @ ext"]
    by (cases "split_on c q") (auto split: list.splits)
qed

lemma norm_comps_snoc_name:
  "n \<noteq> [] \<Longrightarrow> n \<noteq> ''.'' \<Longrightarrow> n \<noteq> ''..'' \<Longrightarrow>
     norm_comps ab st (xs @ [n]) = norm_comps ab st xs @ [n]"
  by (simp add: norm_comps_append)

lemma canon_raw: "canon env (stem @ ''.raw'') = stem_dir env stem @ [stem_name env stem @ ''.raw'']"
proof -
  have n: "l @ ''.raw'' \<noteq> [] \<and> l @ ''.raw'' \<noteq> ''.'' \<and> l @ ''.raw'' \<noteq> ''..''" for l :: string
    by (cases l rule: rev_cases) auto
  have "absolute env (stem @ ''.raw'') = absolute env stem @ ''.raw''"
    by (rule absolute_append_ext) simp
  moreover have "split_on CHR ''/'' (absolute env stem @ ''.raw'')
      = butlast (split_on CHR ''/'' (absolute env stem)) @ [last (split_on CHR ''/'' (absolute env stem)) @ ''.raw'']"
    by (rule split_on_append_ext) simp
  ultimately show ?thesis
    unfolding canon_def stem_dir_def stem_name_def using n by (simp add: norm_comps_append)
qed

lemma canon_shape:
  "canon env (stem @ ''.shape'') = stem_dir env stem @ [stem_name env stem @ ''.shape'']"
proof -
  have n: "l @ ''.shape'' \<noteq> [] \<and> l @ ''.shape'' \<noteq> ''.'' \<and> l @ ''.shape'' \<noteq> ''..''" for l :: string
    by (cases l rule: rev_cases) auto
  have "absolute env (stem @ ''.shape'') = absolute env stem @ ''.shape''"
    by (rule absolute_append_ext) simp
  moreover have "split_on CHR ''/'' (absolute env stem @ ''.shape'')
      = butlast (split_on CHR ''/'' (absolute env stem)) @ [last (split_on CHR ''/'' (absolute env stem)) @ ''.shape'']"
    by (rule split_on_append_ext) simp
  ultimately show ?thesis
    unfolding canon_def stem_dir_def stem_name_def using n by (simp add: norm_comps_append)
qed

lemma raw_file_ne_shape_file: "raw_file env base_dir pa \<noteq> shape_file env base_dir pa'"
proof
  assume "raw_file env base_dir pa = shape_file env base_dir pa'"
  then have "last (raw_file env base_dir pa) = last (shape_file env base_dir pa')" by simp
  then have "stem_name env (os_path_join base_dir (fst pa)) @ ''.raw''
      = stem_name env (os_path_join base_dir (fst pa')) @ ''.shape''"
    by (simp add: raw_file_def shape_file_def canon_raw canon_shape)
  then show False using raw_ne_shape by blast
qed

lemma shape_file_eq_raw_file_eq:
  "shape_file env base_dir pa = shape_file env base_dir pa'
     \<longleftrightarrow> raw_file env base_dir pa = raw_file env base_dir pa'"
  by (simp add: raw_file_def shape_file_def canon_raw canon_shape)

lemma raw_file_nonempty: "raw_file env base_dir pa \<noteq> []" and shape_file_nonempty: "shape_file env base_dir pa \<noteq> []"
  by (simp_all add: raw_file_def shape_file_def canon_raw canon_shape)

lemma fold_leaf_files_other:
  "x \<notin> set (written_names env base_dir leaves) \<Longrightarrow> fold (leaf_files env base_dir) leaves m x = m x"
  by (induction leaves arbitrary: m) (simp_all add: written_names_def leaf_files_def)

lemma distinct_written_names:
  "distinct (map (raw_file env base_dir) leaves)
     \<Longrightarrow> distinct (written_names env base_dir leaves)"
proof (induction leaves)
  case Nil
  then show ?case by (simp add: written_names_def)
next
  case (Cons pa rest)
  then have "distinct (written_names env base_dir rest)" by simp
  moreover have "raw_file env base_dir pa \<notin> set (written_names env base_dir rest)"
    using Cons.prems raw_file_ne_shape_file [of env base_dir pa]
    by (auto simp: written_names_def)
  moreover have "shape_file env base_dir pa \<notin> set (written_names env base_dir rest)"
  proof
    assume "shape_file env base_dir pa \<in> set (written_names env base_dir rest)"
    then obtain pa' where pa': "pa' \<in> set rest"
        and "shape_file env base_dir pa = raw_file env base_dir pa'
             \<or> shape_file env base_dir pa = shape_file env base_dir pa'"
      by (auto simp: written_names_def)
    then have "raw_file env base_dir pa = raw_file env base_dir pa'"
      using raw_file_ne_shape_file [of env base_dir pa' pa] shape_file_eq_raw_file_eq [of env base_dir pa pa']
      by auto
    with pa' Cons.prems show False by auto
  qed
  ultimately show ?case
    using raw_file_ne_shape_file [of env base_dir pa pa] by (simp add: written_names_def)
qed

lemma fold_leaf_files_lookup:
  assumes "distinct (map (raw_file env base_dir) leaves)" and "pa \<in> set leaves"
  shows "fold (leaf_files env base_dir) leaves m (raw_file env base_dir pa)
           = Some (tobytes (snd pa))
       \<and> fold (leaf_files env base_dir) leaves m (shape_file env base_dir pa)
           = Some (encode (serialize_shape (snd pa)))"
  using assms
proof (induction leaves arbitrary: m)
  case Nil
  then show ?case by simp
next
  case (Cons x rest)
  show ?case
  proof (cases "pa \<in> set rest")
    case True
    with Cons show ?thesis by simp
  next
    case False
    with Cons.prems have x: "x = pa" by simp
    have d: "distinct (written_names env base_dir (pa # rest))"
      using Cons.prems(1) x by (intro distinct_written_names) simp
    then have "raw_file env base_dir pa \<notin> set (written_names env base_dir rest)"
      and "shape_file env base_dir pa \<notin> set (written_names env base_dir rest)"
      by (simp_all add: written_names_def)
    then have "fold (leaf_files env base_dir) rest (leaf_files env base_dir pa m)
          (raw_file env base_dir pa)
        = leaf_files env base_dir pa m (raw_file env base_dir pa)"
      and "fold (leaf_files env base_dir) rest (leaf_files env base_dir pa m)
          (shape_file env base_dir pa)
        = leaf_files env base_dir pa m (shape_file env base_dir pa)"
      using fold_leaf_files_other by blast+
    moreover have "leaf_files env base_dir pa m (raw_file env base_dir pa)
        = Some (tobytes (snd pa))"
      and "leaf_files env base_dir pa m (shape_file env base_dir pa)
        = Some (encode (serialize_shape (snd pa)))"
      using raw_file_ne_shape_file [of env base_dir pa pa] by (simp_all add: leaf_files_def)
    ultimately show ?thesis using x by simp
  qed
qed








lemma join_step_append_ext:
  "k \<noteq> [] \<Longrightarrow> join_step a (k @ ext) = join_step a k @ ext"
  by (cases k) (auto simp: join_step_def startswith_sep_def)

lemma os_path_join_append_ext:
  "k \<noteq> [] \<Longrightarrow> os_path_join a (ks @ [k @ ext]) = os_path_join a (ks @ [k]) @ ext"
  by (induction ks arbitrary: a) (simp_all add: join_step_append_ext)

lemma canon_relative:
  "canon env s = norm_comps True
      (if startswith_sep s then [] else norm_comps True [] (split_on CHR ''/'' (getcwd env)))
      (split_on CHR ''/'' s)"
  by (simp add: canon_def absolute_def split_on_sep_append norm_comps_append)

lemma canon_join:
  assumes "list_all (\<lambda>k. \<not> startswith_sep k) p"
  shows "canon env (os_path_join base_dir p) = norm_comps True (canon env base_dir) (key_comps p)"
proof -
  let ?st = "if startswith_sep base_dir then []
             else norm_comps True [] (split_on CHR ''/'' (getcwd env))"
  have sw: "startswith_sep (os_path_join base_dir p) = startswith_sep base_dir"
    using os_path_join_comps [OF assms] by blast
  have "canon env (os_path_join base_dir p)
      = norm_comps True ?st (split_on CHR ''/'' (os_path_join base_dir p))"
    unfolding canon_relative sw ..
  also have "\<dots> = norm_comps True ?st (split_on CHR ''/'' base_dir @ key_comps p)"
    using os_path_join_comps [OF assms] by blast
  also have "\<dots> = norm_comps True (canon env base_dir) (key_comps p)"
    unfolding canon_relative by (rule norm_comps_append)
  finally show ?thesis .
qed

lemma key_comps_plain: "list_all plain_name p \<Longrightarrow> key_comps p = p"
  by (induction p) (simp_all add: key_comps_def plain_name_def key_ok_def split_on_no_sep)

lemma norm_comps_plain: "list_all plain_name p \<Longrightarrow> norm_comps ab st p = st @ p"
  by (induction p arbitrary: st) (simp_all add: plain_name_def key_ok_def)

lemma plain_name_ext: "plain_name k \<Longrightarrow> plain_name (k @ ''.raw'')"
  by (cases k rule: rev_cases) (auto simp: plain_name_def key_ok_def)

lemma raw_file_plain:
  assumes "list_all plain_name p" and "p \<noteq> []"
  shows "raw_file env base_dir (p, a) = canon env base_dir @ butlast p @ [last p @ ''.raw'']"
proof -
  let ?q = "butlast p @ [last p @ ''.raw'']"
  from assms have l: "plain_name (last p)" and b: "list_all plain_name (butlast p)"
    by (auto simp: list_all_iff dest: in_set_butlastD)
  then have q: "list_all plain_name ?q" by (simp add: plain_name_ext)
  have "\<not> startswith_sep k" if "plain_name k" for k
    using that by (cases k) (auto simp: plain_name_def key_ok_def startswith_sep_def)
  with q have ns: "list_all (\<lambda>k. \<not> startswith_sep k) ?q"
    unfolding list_all_iff by blast
  from l have "last p \<noteq> []" by (simp add: plain_name_def key_ok_def)
  then have "os_path_join base_dir ?q = os_path_join base_dir (butlast p @ [last p]) @ ''.raw''"
    by (rule os_path_join_append_ext)
  then have "os_path_join base_dir p @ ''.raw'' = os_path_join base_dir ?q"
    using assms(2) by simp
  then have "raw_file env base_dir (p, a) = canon env (os_path_join base_dir ?q)"
    by (simp add: raw_file_def)
  also have "\<dots> = norm_comps True (canon env base_dir) (key_comps ?q)"
    using ns by (rule canon_join)
  also have "\<dots> = canon env base_dir @ ?q"
    using q by (simp only: key_comps_plain norm_comps_plain)
  finally show ?thesis .
qed

lemma plain_keys_distinct_files:
  assumes "wf_tree t" and "list_all plain_name (tree_keys t)"
  shows "distinct (map (raw_file env base_dir) (flatten_params t))"
proof (cases t)
  case (Leaf a)
  then show ?thesis by (simp add: flatten_params_leaf_paths)
next
  case (Dict kvs)
  have d: "distinct (map fst (leaf_paths t))" using assms(1) by (rule wf_tree_distinct_paths)
  have inj: "inj_on (raw_file env base_dir) (set (leaf_paths t))"
  proof (rule inj_onI)
    fix x y
    assume x: "x \<in> set (leaf_paths t)" and y: "y \<in> set (leaf_paths t)"
      and eq: "raw_file env base_dir x = raw_file env base_dir y"
    obtain p a where xp: "x = (p, a)" by (cases x)
    obtain q b where yq: "y = (q, b)" by (cases y)
    from x xp Dict have pne: "p \<noteq> []" using dict_paths_nonempty by blast
    from y yq Dict have qne: "q \<noteq> []" using dict_paths_nonempty by blast
    from x xp assms(2) have pp: "list_all plain_name p"
      using leaf_paths_keys by (fastforce simp: list_all_iff)
    from y yq assms(2) have qp: "list_all plain_name q"
      using leaf_paths_keys by (fastforce simp: list_all_iff)
    from eq have "butlast p @ [last p @ ''.raw''] = butlast q @ [last q @ ''.raw'']"
      unfolding xp yq raw_file_plain [OF pp pne] raw_file_plain [OF qp qne] by simp
    then have "butlast p = butlast q \<and> last p = last q" by simp
    then have "p = q" using pne qne by (metis append_butlast_last_id)
    with d x y xp yq show "x = y"
      by (metis distinct_map fst_conv inj_onD)
  qed
  have "distinct (leaf_paths t)" using d by (simp add: distinct_map)
  with inj show ?thesis by (simp add: flatten_params_leaf_paths distinct_map)
qed

text \<open>The definitions a concrete run is computed with.\<close>

lemmas run_defs = write_params_def flatten_params_def append_to_list_def path_to_str_tuple_def
  os_path_expanduser_def join_step_def startswith_sep_def endswith_sep_def write_leaf_def
  os_makedirs_def dir_chain_def os_path_dirname_def os_path_split_def all_sep_def rstrip_sep_def
  isdir_def isfile_def open_w_def f_write_def f_close_def Let_def serialize_shape_def encode_def
  digit_char_def str_nat.simps canon_def absolute_def raw_file_def shape_file_def

section \<open>Claims about the shape serializer\<close>

text \<open>
  C2: \<open>serialize_shape\<close> returns the dtype name followed, for each dimension in order, by
  a comma and the dimension's size in base 10 (its digits read back as the size, and a
  positive size has no leading zero); a 0-dimensional array yields the dtype name alone,
  so dtype int32 with the empty shape yields exactly \<open>int32\<close>.
\<close>

theorem serialize_shape_format:
  "serialize_shape a = dtype a @ concat (map (\<lambda>n. CHR '','' # str_nat n) (shape a))
   \<and> (\<forall>n. int_of_str (str_nat n) = Some n \<and> hd (str_nat (Suc n)) \<noteq> CHR ''0'')
   \<and> serialize_shape \<lparr>dtype = d, shape = [], tobytes = b\<rparr> = d
   \<and> serialize_shape \<lparr>dtype = ''int32'', shape = [], tobytes = b\<rparr> = ''int32''
   \<and> serialize_shape \<lparr>dtype = ''float32'', shape = [2, 3], tobytes = b\<rparr> = ''float32,2,3''"
proof -
  have "serialize_shape \<lparr>dtype = ''float32'', shape = [2, 3], tobytes = b\<rparr> = ''float32,2,3''"
    by (simp add: serialize_shape_def digit_char_def str_nat.simps)
  moreover have "serialize_shape \<lparr>dtype = d, shape = [], tobytes = b\<rparr> = d" for d
    by (simp add: serialize_shape_def)
  ultimately show ?thesis
    using serialize_shape_concat [of a] int_of_str_str_nat str_nat_no_leading_zero
    by (simp)
qed

text \<open>
  C5: round trip of the shape serialization. For an array whose dtype name contains no
  comma, splitting \<open>serialize_shape\<close>'s string on commas gives the dtype name as field 0,
  and the remaining fields, read as decimal integers, are the shape.
\<close>

theorem serialize_shape_round_trip:
  assumes "CHR '','' \<notin> set (dtype a)"
  shows "hd (split_on CHR '','' (serialize_shape a)) = dtype a
       \<and> map int_of_str (tl (split_on CHR '','' (serialize_shape a))) = map Some (shape a)"
proof -
  have "\<forall>w \<in> set (dtype a # map str_nat (shape a)). CHR '','' \<notin> set w"
    using assms str_nat_no_comma by auto
  then have "split_on CHR '','' (serialize_shape a) = dtype a # map str_nat (shape a)"
    unfolding serialize_shape_def using split_on_join [of "dtype a" "map str_nat (shape a)" "CHR '',''"]
    by (simp)
  then show ?thesis by (simp add: comp_def int_of_str_str_nat)
qed

theorem serialize_shape_round_trip_witness:
  "CHR '','' \<notin> set ''bfloat16''
   \<and> hd (split_on CHR '','' (serialize_shape \<lparr>dtype = ''bfloat16'', shape = [256, 0, 7], tobytes = []\<rparr>)) = ''bfloat16''
   \<and> map int_of_str (tl (split_on CHR '','' (serialize_shape \<lparr>dtype = ''bfloat16'', shape = [256, 0, 7], tobytes = []\<rparr>)))
       = [Some 256, Some 0, Some 7]"
  using serialize_shape_round_trip [of "\<lparr>dtype = ''bfloat16'', shape = [256, 0, 7], tobytes = []\<rparr>"]
  by simp

section \<open>Claims about the flattener and the file stems\<close>

text \<open>
  C3: \<open>flatten_params\<close> is a function of the tree alone and returns the leaves depth first
  in entry order, one pair per leaf, each with the keys from the root to the leaf: it is
  the list \<open>leaf_paths\<close>, its length is the number of leaves, and a pair is in it exactly
  when the tree has that leaf at that key sequence.
\<close>

theorem flatten_params_one_pair_per_leaf:
  "flatten_params t = leaf_paths t
   \<and> length (flatten_params t) = num_leaves t
   \<and> (leaf_at t p a \<longleftrightarrow> (p, a) \<in> set (flatten_params t))"
  by (simp add: flatten_params_leaf_paths length_leaf_paths leaf_at_iff)

text \<open>
  C4 as stated fails: the tree \<open>{"a": {"b": x}, "a/b": y}\<close> has two leaves with distinct
  key sequences, and both are joined to the stem \<open>/out/a/b\<close>.
\<close>

theorem stems_not_injective:
  "flatten_params (Dict [(''a'', Dict [(''b'', Leaf ex_w)]), (''a/b'', Leaf ex_b)])
     = [([''a'', ''b''], ex_w), ([''a/b''], ex_b)]
   \<and> [''a'', ''b''] \<noteq> [''a/b'']
   \<and> os_path_join ''/out'' [''a'', ''b''] = os_path_join ''/out'' [''a/b'']"
  by (simp add: flatten_params_def append_to_list_def path_to_str_tuple_def join_step_def
      startswith_sep_def endswith_sep_def)

text \<open>
  C4, amended: for key sequences whose keys are not empty and hold no \<open>/\<close>, distinct
  sequences are joined to distinct stems; so in a tree with such keys, in which no dict
  holds a key twice, the stems of the leaves are pairwise distinct.
\<close>

theorem stems_injective:
  "(list_all key_ok p \<and> list_all key_ok q \<and> p \<noteq> q
      \<longrightarrow> os_path_join base_dir p \<noteq> os_path_join base_dir q)
   \<and> (wf_tree t \<and> list_all key_ok (tree_keys t)
      \<longrightarrow> distinct (map (\<lambda>pa. os_path_join base_dir (fst pa)) (flatten_params t)))"
  using os_path_join_inj [of p q base_dir] distinct_stems [of t base_dir] by blast

theorem stems_injective_witness:
  "list_all key_ok [''layer0'', ''w''] \<and> list_all key_ok [''layer0'', ''b'']
   \<and> [''layer0'', ''w''] \<noteq> [''layer0'', ''b'']
   \<and> os_path_join ''/out'' [''layer0'', ''w''] \<noteq> os_path_join ''/out'' [''layer0'', ''b'']
   \<and> wf_tree (Dict [(''layer0'', Dict [(''w'', Leaf ex_w), (''b'', Leaf ex_b)])])
   \<and> list_all key_ok (tree_keys (Dict [(''layer0'', Dict [(''w'', Leaf ex_w), (''b'', Leaf ex_b)])]))
   \<and> distinct (map (\<lambda>pa. os_path_join ''/out'' (fst pa))
        (flatten_params (Dict [(''layer0'', Dict [(''w'', Leaf ex_w), (''b'', Leaf ex_b)])])))"
  using stems_injective [of "[''layer0'', ''w'']" "[''layer0'', ''b'']" "''/out''"
      "Dict [(''layer0'', Dict [(''w'', Leaf ex_w), (''b'', Leaf ex_b)])]"]
  by (simp add: key_ok_def)

text \<open>
  C9 as stated fails in its second half: a key that starts with \<open>/\<close> replaces the target
  root, so the stem of the leaf of \<open>{"/tmp/x": a}\<close> under \<open>/out\<close> is \<open>/tmp/x\<close>, which does
  not lie under the root.
\<close>

theorem stem_escapes_root:
  "flatten_params (Dict [(''/tmp/x'', Leaf ex_w)]) = [([''/tmp/x''], ex_w)]
   \<and> os_path_join ''/out'' [''/tmp/x''] = ''/tmp/x''
   \<and> \<not> prefix ''/out'' (os_path_join ''/out'' [''/tmp/x''])
   \<and> \<not> under_root ''/out'' (os_path_join ''/out'' [''/tmp/x''])"
  by (simp add: flatten_params_def append_to_list_def path_to_str_tuple_def join_step_def
      startswith_sep_def under_root_def norm_path_comps_def)

text \<open>
  C9, amended: every leaf of a tree whose root is a dict has a non-empty path; and when
  no key of the path starts with \<open>/\<close> and the components of its keys, read in order with
  empty and \<open>.\<close> components skipped and each \<open>..\<close> removing the component before it, never
  remove more than they have added and leave at least one, the stem lies under the
  target root: normalised, it is the root followed by at least one name.
\<close>

theorem dict_leaf_path_nonempty:
  "\<forall>(p, a) \<in> set (flatten_params (Dict kvs)).
     p \<noteq> [] \<and> (keys_stay_under p \<longrightarrow> under_root base_dir (os_path_join base_dir p))"
proof (clarify, intro conjI impI)
  fix p a
  assume "(p, a) \<in> set (flatten_params (Dict kvs))"
  then show "p \<noteq> []"
    unfolding flatten_params_leaf_paths by (rule dict_paths_nonempty)
  assume "keys_stay_under p"
  then show "under_root base_dir (os_path_join base_dir p)" by (rule stem_under_root)
qed

theorem dict_leaf_path_nonempty_witness:
  "flatten_params (Dict [(''layer0/sub'', Dict [(''..'', Dict [(''w'', Leaf ex_w)])])])
     = [([''layer0/sub'', ''..'', ''w''], ex_w)]
   \<and> keys_stay_under [''layer0/sub'', ''..'', ''w'']
   \<and> os_path_join ''/out'' [''layer0/sub'', ''..'', ''w''] = ''/out/layer0/sub/../w''
   \<and> under_root ''/out'' ''/out/layer0/sub/../w''"
proof -
  have f: "flatten_params (Dict [(''layer0/sub'', Dict [(''..'', Dict [(''w'', Leaf ex_w)])])])
      = [([''layer0/sub'', ''..'', ''w''], ex_w)]"
    by (simp add: flatten_params_def append_to_list_def path_to_str_tuple_def)
  have k: "keys_stay_under [''layer0/sub'', ''..'', ''w'']"
    by (simp add: keys_stay_under_def key_comps_def startswith_sep_def)
  have j: "os_path_join ''/out'' [''layer0/sub'', ''..'', ''w''] = ''/out/layer0/sub/../w''"
    by (simp add: join_step_def startswith_sep_def endswith_sep_def)
  from dict_leaf_path_nonempty
    [of "[(''layer0/sub'', Dict [(''..'', Dict [(''w'', Leaf ex_w)])])]" "''/out''"]
  have "keys_stay_under [''layer0/sub'', ''..'', ''w'']
      \<longrightarrow> under_root ''/out'' (os_path_join ''/out'' [''layer0/sub'', ''..'', ''w''])"
    unfolding f by simp
  with k have "under_root ''/out'' (os_path_join ''/out'' [''layer0/sub'', ''..'', ''w''])" by (rule rev_mp)
  then have "under_root ''/out'' ''/out/layer0/sub/../w''" unfolding j .
  with f k j show ?thesis by (intro conjI)
qed

section \<open>Claims about the entry point\<close>

text \<open>
  C7: when the Loader fails on the resolved source directory, \<open>main\<close> ends with that
  error and the file system is as it was: no directory, no file and no trace entry is
  added, since the Exporter is not reached.
\<close>

theorem load_failure_writes_nothing:
  assumes "read_parameter env load_and_format_params (fst (resolve_dirs env a)) = Inl e"
  shows "fst (main env load_and_format_params a fs) = (Inl e, fs)"
  using assms by (simp add: main_def case_prod_unfold Let_def)

theorem load_failure_writes_nothing_witness:
  "read_parameter ex_env
      (\<lambda>p. Inl LoaderError)
      (fst (resolve_dirs ex_env
         \<lparr>source_dir = ''~/ckpt'', target_dir = None\<rparr>)) = Inl LoaderError
   \<and> fst (main ex_env
        (\<lambda>p. Inl LoaderError) \<lparr>source_dir = ''~/ckpt'', target_dir = None\<rparr>
        \<lparr>dirs = {[''home'']}, files = [[''home'', ''x''] \<mapsto> [1]], trace = []\<rparr>)
     = (Inl LoaderError, \<lparr>dirs = {[''home'']}, files = [[''home'', ''x''] \<mapsto> [1]], trace = []\<rparr>)"
  using load_failure_writes_nothing [of
      "ex_env"
      "\<lambda>p. Inl LoaderError" "\<lparr>source_dir = ''~/ckpt'', target_dir = None\<rparr>" LoaderError
      "\<lparr>dirs = {[''home'']}, files = [[''home'', ''x''] \<mapsto> [1]], trace = []\<rparr>"]
  by (simp add: read_parameter_def)

text \<open>
  C8: without \<open>--target_dir\<close>, and with the empty string for it, the target directory is
  \<open>os.path.join(source_dir, "raw")\<close> for the home-expanded, absolute source directory,
  that is the source directory, a \<open>/\<close> unless it ends with one, and \<open>raw\<close>; a non-empty
  \<open>--target_dir\<close> is home-expanded and made absolute. This directory is the one \<open>main\<close>
  prints and hands to the Exporter.
\<close>

theorem target_dir_default:
  "snd (resolve_dirs env \<lparr>source_dir = s, target_dir = None\<rparr>)
     = os_path_join (os_path_abspath env (os_path_expanduser env s)) [''raw'']
   \<and> snd (resolve_dirs env \<lparr>source_dir = s, target_dir = Some ''''\<rparr>)
     = os_path_join (os_path_abspath env (os_path_expanduser env s)) [''raw'']
   \<and> os_path_join (os_path_abspath env (os_path_expanduser env s)) [''raw'']
     = root_prefix (os_path_abspath env (os_path_expanduser env s)) @ ''raw''
   \<and> os_path_abspath env (os_path_expanduser env s) \<noteq> []
   \<and> (t \<noteq> [] \<longrightarrow> snd (resolve_dirs env \<lparr>source_dir = s, target_dir = Some t\<rparr>)
         = os_path_abspath env (os_path_expanduser env t))
   \<and> snd (main env load_and_format_params a fs) ! 2
         = CHR 0x09 # ''Target directory: '' @ snd (resolve_dirs env a)
   \<and> (read_parameter env load_and_format_params (fst (resolve_dirs env a)) = Inr params
        \<longrightarrow> fst (main env load_and_format_params a fs)
            = write_params env params (snd (resolve_dirs env a)) fs)"
proof -
  have "key_ok ''raw''" by (simp add: key_ok_def)
  then have "os_path_join x [''raw''] = root_prefix x @ ''raw''" for x
    by (simp add: join_step_key_ok)
  moreover have "os_path_abspath env x \<noteq> []" for x
    by (simp add: os_path_abspath_def normpath_nonempty)
  moreover have "snd (main env load_and_format_params a fs) ! 2
         = CHR 0x09 # ''Target directory: '' @ snd (resolve_dirs env a)"
    by (simp add: main_def Let_def case_prod_unfold split: sum.splits)
  moreover have "read_parameter env load_and_format_params (fst (resolve_dirs env a)) = Inr params
        \<longrightarrow> fst (main env load_and_format_params a fs)
            = write_params env params (snd (resolve_dirs env a)) fs"
    by (simp add: main_def Let_def case_prod_unfold)
  moreover have "snd (resolve_dirs env \<lparr>source_dir = s, target_dir = None\<rparr>)
     = os_path_join (os_path_abspath env (os_path_expanduser env s)) [''raw'']"
    by (simp add: resolve_dirs_def Let_def)
  moreover have "snd (resolve_dirs env \<lparr>source_dir = s, target_dir = Some ''''\<rparr>)
     = os_path_join (os_path_abspath env (os_path_expanduser env s)) [''raw'']"
    by (simp add: resolve_dirs_def Let_def)
  moreover have "t \<noteq> [] \<longrightarrow> snd (resolve_dirs env \<lparr>source_dir = s, target_dir = Some t\<rparr>)
         = os_path_abspath env (os_path_expanduser env t)"
    by (simp add: resolve_dirs_def Let_def)
  ultimately show ?thesis by blast
qed

theorem target_dir_default_witness:
  "''~/out'' \<noteq> []
   \<and> snd (resolve_dirs ex_env
        \<lparr>source_dir = ''ckpt'', target_dir = Some ''~/out''\<rparr>) = ''/home/u/out''
   \<and> snd (resolve_dirs ex_env
        \<lparr>source_dir = ''ckpt'', target_dir = None\<rparr>) = ''/w/ckpt/raw''
   \<and> fst (main ex_env
        (\<lambda>p. Inr (Dict [])) \<lparr>source_dir = ''ckpt'', target_dir = Some ''~/out''\<rparr> ex_fs)
     = write_params ex_env
        (Dict []) ''/home/u/out'' ex_fs"
proof -
  have "os_path_abspath ex_env
      (os_path_expanduser ex_env ''~/out'')
      = ''/home/u/out''"
    by (simp add: os_path_abspath_def os_path_expanduser_def os_path_normpath_def rstrip_sep_def
        startswith_sep_def endswith_sep_def join_step_def Let_def)
  moreover have "os_path_abspath ex_env
      (os_path_expanduser ex_env ''ckpt'')
      = ''/w/ckpt''"
    by (simp add: os_path_abspath_def os_path_expanduser_def os_path_normpath_def rstrip_sep_def
        startswith_sep_def endswith_sep_def join_step_def Let_def)
  ultimately show ?thesis
    using target_dir_default [of
        "ex_env"
        "''ckpt''" "''~/out''" "\<lambda>p. Inr (Dict [])"
        "\<lparr>source_dir = ''ckpt'', target_dir = Some ''~/out''\<rparr>" ex_fs "Dict []"]
    by (simp add: read_parameter_def resolve_dirs_def root_prefix_def endswith_sep_def)
qed

section \<open>Claims about the Exporter\<close>



text \<open>
  C6: when a run of the Exporter, or of \<open>main\<close> with the same Loader result, returns
  normally, a second run with the same arguments on the file system the first one left
  returns normally too and leaves the same directories and the same files with the same
  contents.
\<close>

theorem rerun_idempotent:
  "(write_params env params base_dir fs = (Inr (), fs1)
      \<longrightarrow> (\<exists>fs2. write_params env params base_dir fs1 = (Inr (), fs2)
             \<and> dirs fs2 = dirs fs1 \<and> files fs2 = files fs1))
   \<and> (fst (main env load_and_format_params a fs) = (Inr (), fs1)
      \<longrightarrow> (\<exists>fs2. fst (main env load_and_format_params a fs1) = (Inr (), fs2)
             \<and> dirs fs2 = dirs fs1 \<and> files fs2 = files fs1))"
proof (intro conjI impI)
  assume "write_params env params base_dir fs = (Inr (), fs1)"
  then show "\<exists>fs2. write_params env params base_dir fs1 = (Inr (), fs2)
             \<and> dirs fs2 = dirs fs1 \<and> files fs2 = files fs1"
    unfolding write_params_def by (rule rerun_unchanged)
next
  assume m: "fst (main env load_and_format_params a fs) = (Inr (), fs1)"
  show "\<exists>fs2. fst (main env load_and_format_params a fs1) = (Inr (), fs2)
             \<and> dirs fs2 = dirs fs1 \<and> files fs2 = files fs1"
  proof (cases "read_parameter env load_and_format_params (fst (resolve_dirs env a))")
    case (Inl e)
    then have "fst (main env load_and_format_params a fs) = (Inl e, fs)"
      by (simp add: main_def case_prod_unfold Let_def)
    with m show ?thesis by simp
  next
    case (Inr t)
    then have eq: "fst (main env load_and_format_params a s)
        = write_leaves env (os_path_expanduser env (snd (resolve_dirs env a))) (flatten_params t) s" for s
      by (simp add: main_def case_prod_unfold Let_def write_params_def)
    from m have "write_leaves env (os_path_expanduser env (snd (resolve_dirs env a))) (flatten_params t) fs
        = (Inr (), fs1)"
      unfolding eq .
    then show ?thesis unfolding eq by (rule rerun_unchanged)
  qed
qed

theorem rerun_idempotent_witness:
  "write_params ex_env (Dict [(''w'', Leaf ex_w)]) ''/out'' ex_fs
     = (Inr (), \<lparr>dirs = {[''out'']},
          files = [[''out'', ''w.raw''] \<mapsto> tobytes ex_w,
                   [''out'', ''w.shape''] \<mapsto> encode ''float32,2,2''],
          trace = [Mkdir ''/out'', Open ''/out/w.raw'', Write ''/out/w.raw'' (tobytes ex_w),
            Close ''/out/w.raw'', Open ''/out/w.shape'',
            Write ''/out/w.shape'' (encode ''float32,2,2''), Close ''/out/w.shape'']\<rparr>)
   \<and> (\<exists>fs2. write_params ex_env (Dict [(''w'', Leaf ex_w)]) ''/out''
          \<lparr>dirs = {[''out'']},
           files = [[''out'', ''w.raw''] \<mapsto> tobytes ex_w,
                    [''out'', ''w.shape''] \<mapsto> encode ''float32,2,2''],
           trace = [Mkdir ''/out'', Open ''/out/w.raw'', Write ''/out/w.raw'' (tobytes ex_w),
             Close ''/out/w.raw'', Open ''/out/w.shape'',
             Write ''/out/w.shape'' (encode ''float32,2,2''), Close ''/out/w.shape'']\<rparr>
          = (Inr (), fs2)
        \<and> dirs fs2 = {[''out'']}
        \<and> files fs2 = [[''out'', ''w.raw''] \<mapsto> tobytes ex_w,
                        [''out'', ''w.shape''] \<mapsto> encode ''float32,2,2''])
   \<and> fst (main ex_env (\<lambda>p. Inr (Dict [(''w'', Leaf ex_w)]))
          \<lparr>source_dir = ''ckpt'', target_dir = Some ''/out''\<rparr> ex_fs)
     = (Inr (), \<lparr>dirs = {[''out'']},
          files = [[''out'', ''w.raw''] \<mapsto> tobytes ex_w,
                   [''out'', ''w.shape''] \<mapsto> encode ''float32,2,2''],
          trace = [Mkdir ''/out'', Open ''/out/w.raw'', Write ''/out/w.raw'' (tobytes ex_w),
            Close ''/out/w.raw'', Open ''/out/w.shape'',
            Write ''/out/w.shape'' (encode ''float32,2,2''), Close ''/out/w.shape'']\<rparr>)
   \<and> (\<exists>fs2. fst (main ex_env (\<lambda>p. Inr (Dict [(''w'', Leaf ex_w)]))
          \<lparr>source_dir = ''ckpt'', target_dir = Some ''/out''\<rparr>
          \<lparr>dirs = {[''out'']},
           files = [[''out'', ''w.raw''] \<mapsto> tobytes ex_w,
                    [''out'', ''w.shape''] \<mapsto> encode ''float32,2,2''],
           trace = [Mkdir ''/out'', Open ''/out/w.raw'', Write ''/out/w.raw'' (tobytes ex_w),
             Close ''/out/w.raw'', Open ''/out/w.shape'',
             Write ''/out/w.shape'' (encode ''float32,2,2''), Close ''/out/w.shape'']\<rparr>)
          = (Inr (), fs2)
        \<and> dirs fs2 = {[''out'']}
        \<and> files fs2 = [[''out'', ''w.raw''] \<mapsto> tobytes ex_w,
                        [''out'', ''w.shape''] \<mapsto> encode ''float32,2,2''])"
proof -
  let ?fs1 = "\<lparr>dirs = {[''out'']},
          files = [[''out'', ''w.raw''] \<mapsto> tobytes ex_w,
                   [''out'', ''w.shape''] \<mapsto> encode ''float32,2,2''],
          trace = [Mkdir ''/out'', Open ''/out/w.raw'', Write ''/out/w.raw'' (tobytes ex_w),
            Close ''/out/w.raw'', Open ''/out/w.shape'',
            Write ''/out/w.shape'' (encode ''float32,2,2''), Close ''/out/w.shape'']\<rparr>"
  let ?T = "Dict [(''w'', Leaf ex_w)]"
  let ?A = "\<lparr>source_dir = ''ckpt'', target_dir = Some ''/out''\<rparr>"
  have a: "write_params ex_env ?T ''/out'' ex_fs = (Inr (), ?fs1)"
    by (simp add: run_defs)
  have t: "os_path_abspath ex_env (os_path_expanduser ex_env ''/out'') = ''/out''"
    by (simp add: os_path_abspath_def os_path_expanduser_def os_path_normpath_def rstrip_sep_def
        startswith_sep_def endswith_sep_def join_step_def Let_def)
  have m: "fst (main ex_env (\<lambda>p. Inr ?T) ?A fs) = write_params ex_env ?T ''/out'' fs" for fs
    by (simp add: main_def resolve_dirs_def read_parameter_def t Let_def)
  have b: "fst (main ex_env (\<lambda>p. Inr ?T) ?A ex_fs) = (Inr (), ?fs1)"
    by (simp only: m a)
  from rerun_idempotent [of ex_env ?T "''/out''" ex_fs ?fs1,
      THEN conjunct1, THEN mp, OF a]
  have "\<exists>fs2. write_params ex_env ?T ''/out'' ?fs1 = (Inr (), fs2)
             \<and> dirs fs2 = dirs ?fs1 \<and> files fs2 = files ?fs1" .
  then have c: "\<exists>fs2. write_params ex_env ?T ''/out'' ?fs1 = (Inr (), fs2)
             \<and> dirs fs2 = {[''out'']}
             \<and> files fs2 = [[''out'', ''w.raw''] \<mapsto> tobytes ex_w,
                             [''out'', ''w.shape''] \<mapsto> encode ''float32,2,2'']"
    by simp
  from rerun_idempotent [of ex_env ?T "''/out''" ex_fs ?fs1 "\<lambda>p. Inr ?T" ?A,
      THEN conjunct2, THEN mp, OF b]
  have "\<exists>fs2. fst (main ex_env (\<lambda>p. Inr ?T) ?A ?fs1) = (Inr (), fs2)
             \<and> dirs fs2 = dirs ?fs1 \<and> files fs2 = files ?fs1" .
  then have d: "\<exists>fs2. fst (main ex_env (\<lambda>p. Inr ?T) ?A ?fs1) = (Inr (), fs2)
             \<and> dirs fs2 = {[''out'']}
             \<and> files fs2 = [[''out'', ''w.raw''] \<mapsto> tobytes ex_w,
                             [''out'', ''w.shape''] \<mapsto> encode ''float32,2,2'']"
    by simp
  from a c b d show ?thesis by (intro conjI)
qed

text \<open>
  C1 as stated fails: the two leaves of \<open>{"a": {"b": w}, "a/b": b}\<close> are written to the
  same stem \<open>/out/a/b\<close>. The run returns normally and leaves one \<open>.raw\<close>/\<open>.shape\<close> pair
  for two leaves, and the \<open>.raw\<close> file of the first leaf holds the bytes of the second.
\<close>

theorem export_collision:
  "fst (write_params ex_env (Dict [(''a'', Dict [(''b'', Leaf ex_w)]), (''a/b'', Leaf ex_b)]) ''/out'' ex_fs)
     = Inr ()
   \<and> flatten_params (Dict [(''a'', Dict [(''b'', Leaf ex_w)]), (''a/b'', Leaf ex_b)])
     = [([''a'', ''b''], ex_w), ([''a/b''], ex_b)]
   \<and> num_leaves (Dict [(''a'', Dict [(''b'', Leaf ex_w)]), (''a/b'', Leaf ex_b)]) = 2
   \<and> dom (files (snd (write_params ex_env
          (Dict [(''a'', Dict [(''b'', Leaf ex_w)]), (''a/b'', Leaf ex_b)]) ''/out'' ex_fs)))
     = {[''out'', ''a'', ''b.raw''], [''out'', ''a'', ''b.shape'']}
   \<and> raw_file ex_env ''/out'' ([''a'', ''b''], ex_w) = [''out'', ''a'', ''b.raw'']
   \<and> files (snd (write_params ex_env
          (Dict [(''a'', Dict [(''b'', Leaf ex_w)]), (''a/b'', Leaf ex_b)]) ''/out'' ex_fs))
        [''out'', ''a'', ''b.raw''] = Some (tobytes ex_b)
   \<and> tobytes ex_b \<noteq> tobytes ex_w"
proof -
  have r: "write_params ex_env (Dict [(''a'', Dict [(''b'', Leaf ex_w)]), (''a/b'', Leaf ex_b)]) ''/out'' ex_fs
     = (Inr (), \<lparr>dirs = {[''out''], [''out'', ''a'']},
         files = [[''out'', ''a'', ''b.raw''] \<mapsto> tobytes ex_b,
                  [''out'', ''a'', ''b.shape''] \<mapsto> encode ''int32''],
         trace = [Mkdir ''/out'', Mkdir ''/out/a'',
           Open ''/out/a/b.raw'', Write ''/out/a/b.raw'' (tobytes ex_w), Close ''/out/a/b.raw'',
           Open ''/out/a/b.shape'', Write ''/out/a/b.shape'' (encode ''float32,2,2''),
           Close ''/out/a/b.shape'',
           Open ''/out/a/b.raw'', Write ''/out/a/b.raw'' (tobytes ex_b), Close ''/out/a/b.raw'',
           Open ''/out/a/b.shape'', Write ''/out/a/b.shape'' (encode ''int32''),
           Close ''/out/a/b.shape'']\<rparr>)"
    by (simp add: run_defs insert_commute)
  have f: "flatten_params (Dict [(''a'', Dict [(''b'', Leaf ex_w)]), (''a/b'', Leaf ex_b)])
     = [([''a'', ''b''], ex_w), ([''a/b''], ex_b)]"
    by (simp add: flatten_params_def append_to_list_def path_to_str_tuple_def)
  have n: "raw_file ex_env ''/out'' ([''a'', ''b''], ex_w) = [''out'', ''a'', ''b.raw'']"
    by (simp add: raw_file_def canon_def absolute_def join_step_def startswith_sep_def endswith_sep_def)
  show ?thesis unfolding r f n by auto
qed

text \<open>
  C1, amended: for a tree whose leaves' \<open>.raw\<close> paths name pairwise distinct files, a run
  of \<open>write_params\<close> that returns normally leaves, for every leaf, its \<open>.raw\<close> file
  holding the array's bytes and its \<open>.shape\<close> file holding the serialized shape,
  whatever these files held before; the files of the leaves are pairwise distinct, two
  per leaf; and every other file is as it was. The \<open>.raw\<close> files are pairwise distinct
  whenever no dict holds a key twice and every key is a name: not empty, without \<open>/\<close>,
  and neither \<open>.\<close> nor \<open>..\<close>.
\<close>

theorem export_one_pair_per_leaf:
  "(write_params env params base_dir fs = (Inr (), fs')
      \<and> distinct (map (raw_file env (os_path_expanduser env base_dir)) (flatten_params params))
    \<longrightarrow>
      (\<forall>pa \<in> set (flatten_params params).
          files fs' (raw_file env (os_path_expanduser env base_dir) pa) = Some (tobytes (snd pa))
        \<and> files fs' (shape_file env (os_path_expanduser env base_dir) pa)
            = Some (encode (serialize_shape (snd pa))))
      \<and> (\<forall>x. x \<notin> set (written_names env (os_path_expanduser env base_dir) (flatten_params params))
            \<longrightarrow> files fs' x = files fs x)
      \<and> distinct (written_names env (os_path_expanduser env base_dir) (flatten_params params))
      \<and> length (written_names env (os_path_expanduser env base_dir) (flatten_params params))
          = 2 * num_leaves params)
   \<and> (wf_tree params \<and> list_all plain_name (tree_keys params)
        \<longrightarrow> distinct (map (raw_file env (os_path_expanduser env base_dir)) (flatten_params params)))"
proof (rule conjI)
  show "wf_tree params \<and> list_all plain_name (tree_keys params)
        \<longrightarrow> distinct (map (raw_file env (os_path_expanduser env base_dir)) (flatten_params params))"
    using plain_keys_distinct_files by blast
next
  let ?b = "os_path_expanduser env base_dir"
  let ?l = "flatten_params params"
  have main: "(\<forall>pa \<in> set ?l. files fs' (raw_file env ?b pa) = Some (tobytes (snd pa))
          \<and> files fs' (shape_file env ?b pa) = Some (encode (serialize_shape (snd pa))))
      \<and> (\<forall>x. x \<notin> set (written_names env ?b ?l) \<longrightarrow> files fs' x = files fs x)
      \<and> distinct (written_names env ?b ?l)
      \<and> length (written_names env ?b ?l) = 2 * num_leaves params"
    if a: "write_params env params base_dir fs = (Inr (), fs') \<and> distinct (map (raw_file env ?b) ?l)"
  proof -
    from a have "write_leaves env ?b ?l fs = (Inr (), fs')" by (simp add: write_params_def)
    then have f: "files fs' = fold (leaf_files env ?b) ?l (files fs)"
      using write_leaves_success by blast
    from a have d: "distinct (map (raw_file env ?b) ?l)" by simp
    have 1: "\<forall>pa \<in> set ?l. files fs' (raw_file env ?b pa) = Some (tobytes (snd pa))
            \<and> files fs' (shape_file env ?b pa) = Some (encode (serialize_shape (snd pa)))"
      unfolding f using fold_leaf_files_lookup [OF d] by blast
    have 2: "\<forall>x. x \<notin> set (written_names env ?b ?l) \<longrightarrow> files fs' x = files fs x"
      unfolding f using fold_leaf_files_other by blast
    have 3: "distinct (written_names env ?b ?l)" using d by (rule distinct_written_names)
    have "length (written_names env ?b ls) = 2 * length ls" for ls
      by (induction ls) (simp_all add: written_names_def)
    then have 4: "length (written_names env ?b ?l) = 2 * num_leaves params"
      by (simp add: flatten_params_leaf_paths length_leaf_paths)
    from 1 2 3 4 show ?thesis by blast
  qed
  then show "write_params env params base_dir fs = (Inr (), fs') \<and> distinct (map (raw_file env ?b) ?l)
    \<longrightarrow>
      (\<forall>pa \<in> set ?l. files fs' (raw_file env ?b pa) = Some (tobytes (snd pa))
          \<and> files fs' (shape_file env ?b pa) = Some (encode (serialize_shape (snd pa))))
      \<and> (\<forall>x. x \<notin> set (written_names env ?b ?l) \<longrightarrow> files fs' x = files fs x)
      \<and> distinct (written_names env ?b ?l)
      \<and> length (written_names env ?b ?l) = 2 * num_leaves params"
    by blast
qed

theorem export_one_pair_per_leaf_witness:
  "write_params ex_env (Dict [(''layer0'', Dict [(''w'', Leaf ex_w)])]) ''/out''
       \<lparr>dirs = {[''out''], [''out'', ''layer0'']},
        files = [[''out'', ''keep''] \<mapsto> [1], [''out'', ''layer0'', ''w.raw''] \<mapsto> [9, 9]],
        trace = []\<rparr>
     = (Inr (), \<lparr>dirs = {[''out''], [''out'', ''layer0'']},
         files = [[''out'', ''keep''] \<mapsto> [1],
                  [''out'', ''layer0'', ''w.raw''] \<mapsto> tobytes ex_w,
                  [''out'', ''layer0'', ''w.shape''] \<mapsto> encode ''float32,2,2''],
         trace = [Open ''/out/layer0/w.raw'', Write ''/out/layer0/w.raw'' (tobytes ex_w),
           Close ''/out/layer0/w.raw'', Open ''/out/layer0/w.shape'',
           Write ''/out/layer0/w.shape'' (encode ''float32,2,2''), Close ''/out/layer0/w.shape'']\<rparr>)
   \<and> distinct (map (raw_file ex_env (os_path_expanduser ex_env ''/out''))
        (flatten_params (Dict [(''layer0'', Dict [(''w'', Leaf ex_w)])])))
   \<and> written_names ex_env (os_path_expanduser ex_env ''/out'')
        (flatten_params (Dict [(''layer0'', Dict [(''w'', Leaf ex_w)])]))
     = [[''out'', ''layer0'', ''w.raw''], [''out'', ''layer0'', ''w.shape'']]
   \<and> length (written_names ex_env (os_path_expanduser ex_env ''/out'')
        (flatten_params (Dict [(''layer0'', Dict [(''w'', Leaf ex_w)])])))
     = 2 * num_leaves (Dict [(''layer0'', Dict [(''w'', Leaf ex_w)])])
   \<and> length (tobytes ex_w) = 16
   \<and> wf_tree (Dict [(''layer0'', Dict [(''w'', Leaf ex_w)])])
   \<and> list_all plain_name (tree_keys (Dict [(''layer0'', Dict [(''w'', Leaf ex_w)])]))"
proof -
  let ?fs = "\<lparr>dirs = {[''out''], [''out'', ''layer0'']},
        files = [[''out'', ''keep''] \<mapsto> [1], [''out'', ''layer0'', ''w.raw''] \<mapsto> [9, 9]],
        trace = []\<rparr>"
  let ?fs' = "\<lparr>dirs = {[''out''], [''out'', ''layer0'']},
         files = [[''out'', ''keep''] \<mapsto> [1],
                  [''out'', ''layer0'', ''w.raw''] \<mapsto> tobytes ex_w,
                  [''out'', ''layer0'', ''w.shape''] \<mapsto> encode ''float32,2,2''],
         trace = [Open ''/out/layer0/w.raw'', Write ''/out/layer0/w.raw'' (tobytes ex_w),
           Close ''/out/layer0/w.raw'', Open ''/out/layer0/w.shape'',
           Write ''/out/layer0/w.shape'' (encode ''float32,2,2''), Close ''/out/layer0/w.shape'']\<rparr>"
  have r: "write_params ex_env (Dict [(''layer0'', Dict [(''w'', Leaf ex_w)])]) ''/out'' ?fs
      = (Inr (), ?fs')"
    by (simp add: run_defs)
  have d: "distinct (map (raw_file ex_env (os_path_expanduser ex_env ''/out''))
        (flatten_params (Dict [(''layer0'', Dict [(''w'', Leaf ex_w)])])))"
    by (simp add: flatten_params_def append_to_list_def path_to_str_tuple_def)
  have w: "written_names ex_env (os_path_expanduser ex_env ''/out'')
        (flatten_params (Dict [(''layer0'', Dict [(''w'', Leaf ex_w)])]))
     = [[''out'', ''layer0'', ''w.raw''], [''out'', ''layer0'', ''w.shape'']]"
    by (simp add: written_names_def run_defs)
  from export_one_pair_per_leaf [THEN conjunct1, THEN mp, OF conjI, OF r d]
  have "length (written_names ex_env (os_path_expanduser ex_env ''/out'')
        (flatten_params (Dict [(''layer0'', Dict [(''w'', Leaf ex_w)])])))
     = 2 * num_leaves (Dict [(''layer0'', Dict [(''w'', Leaf ex_w)])])"
    by (elim conjE)
  moreover have a: "wf_tree (Dict [(''layer0'', Dict [(''w'', Leaf ex_w)])])"
    by simp
  moreover have b: "list_all plain_name (tree_keys (Dict [(''layer0'', Dict [(''w'', Leaf ex_w)])]))"
    by (simp add: plain_name_def key_ok_def)
  moreover from export_one_pair_per_leaf [THEN conjunct2, THEN mp, OF conjI, OF a b]
  have "distinct (map (raw_file ex_env (os_path_expanduser ex_env ''/out''))
        (flatten_params (Dict [(''layer0'', Dict [(''w'', Leaf ex_w)])])))" .
  ultimately show ?thesis using r w by simp
qed

end
